theory Spec2Isabelle
  imports Main "HOL-Library.Word" "HOL-Library.Signed_Division"
begin

unbundle bit_operations_syntax

text \<open>
  The ECDSA of the repository: the signer, the verifier, the generic recoverer and the fast
  recoverer, in the generic form (the functions \<^verbatim>\<open>_6dcb8a_\<close>, \<^verbatim>\<open>_2bfce0_\<close>,
  \<^verbatim>\<open>_560c92_\<close> and the class that \<^verbatim>\<open>_66a7cf_\<close> returns) and in the class form (the
  static methods of \<^verbatim>\<open>Ecdsa\<close>). A function whose source name starts with an underscore
  keeps its name after the prefix \<open>fn\<close>. The definitions come first, then two small domains
  to run them on, then the proofs.
\<close>

section \<open>Byte arrays and little-endian integers\<close>

text \<open>
  A \<^verbatim>\<open>Uint8Array\<close> is a list of bytes. A JavaScript \<^verbatim>\<open>bigint\<close> is an
  \<^typ>\<open>int\<close>: \<^verbatim>\<open>>>\<close> is \<^const>\<open>drop_bit\<close>, \<^verbatim>\<open><<\<close> is \<^const>\<open>push_bit\<close>,
  \<^verbatim>\<open>&\<close>, \<^verbatim>\<open>|\<close>, \<^verbatim>\<open>^\<close> are the two's complement operations, and
  \<^verbatim>\<open>/\<close> and \<^verbatim>\<open>%\<close> truncate towards zero (\<open>sdiv\<close>, \<open>smod\<close>).
\<close>

type_synonym Uint8Array = "8 word list"

text \<open>
  \<^verbatim>\<open>compare(a, b)\<close>: the loop runs \<open>i\<close> from \<open>a.byteLength - 1\<close> down to \<open>0\<close>.
  \<open>compare_from a b k\<close> is the loop with \<open>k\<close> indices left, the next one being
  \<open>k - 1\<close>. Reading \<open>b[i]\<close> past the end of \<open>b\<close> gives \<^verbatim>\<open>undefined\<close>, and both
  comparisons with it are false.
\<close>

fun compare_from :: "Uint8Array \<Rightarrow> Uint8Array \<Rightarrow> nat \<Rightarrow> int" where
  "compare_from a b 0 = 0"
| "compare_from a b (Suc i) =
     (if i < length b \<and> a ! i > b ! i then 1
      else if i < length b \<and> a ! i < b ! i then - 1
      else compare_from a b i)"

definition compare :: "Uint8Array \<Rightarrow> Uint8Array \<Rightarrow> int" where
  "compare a b = compare_from a b (length a)"

text \<open>
  \<^verbatim>\<open>bigintToUint8Array_LE(b, B)\<close>: the \<^verbatim>\<open>while (b > 0n)\<close> loop over a zero-filled
  array of \<open>B\<close> bytes. A store past the end of a typed array is ignored, as
  \<^const>\<open>list_update\<close> ignores it.
\<close>

function LE_loop :: "Uint8Array \<Rightarrow> int \<Rightarrow> nat \<Rightarrow> Uint8Array" where
  "LE_loop a b i =
     (if b > 0 then LE_loop (a[i := word_of_int (b AND 255)]) (drop_bit 8 b) (Suc i) else a)"
  by pat_completeness auto
termination
  by (relation "measure (\<lambda>(a, b, i). nat b)") (auto simp: drop_bit_eq_div)

definition bigintToUint8Array_LE :: "int \<Rightarrow> nat \<Rightarrow> Uint8Array" where
  "bigintToUint8Array_LE b B = LE_loop (replicate B 0) b 0"

text \<open>
  \<^verbatim>\<open>uint8ArrayToBigint_LE(a, B?)\<close>: the \<^verbatim>\<open>for\<close> loop adds
  \<^verbatim>\<open>BigInt(a[i]) << (BigInt(i) << 3n)\<close> for \<open>i\<close> below
  \<^verbatim>\<open>Math.min(a.byteLength, B ?? a.byteLength)\<close>.
\<close>

definition uint8ArrayToBigint_LE :: "Uint8Array \<Rightarrow> nat option \<Rightarrow> int" where
  "uint8ArrayToBigint_LE a B =
     fold (\<lambda>i b. b + push_bit (push_bit 3 i) (uint (a ! i)))
       [0 ..< min (length a) (case B of None \<Rightarrow> length a | Some B' \<Rightarrow> B')] 0"

text \<open>
  The byte length of the group order, the arrow function at the head of the signer:
  \<^verbatim>\<open>n => { let i = 0; while (n > 0n) { n >>= 8n; i++; } return i }\<close>.
\<close>

function byteLength_loop :: "int \<Rightarrow> nat \<Rightarrow> nat" where
  "byteLength_loop n i = (if n > 0 then byteLength_loop (drop_bit 8 n) (Suc i) else i)"
  by pat_completeness auto
termination
  by (relation "measure (\<lambda>(n, i). nat n)") (auto simp: drop_bit_eq_div)

definition nByteLength :: "int \<Rightarrow> nat" where
  "nByteLength n = byteLength_loop n 0"

section \<open>Points, domain parameters and signatures\<close>

text \<open>
  The errors a \<^verbatim>\<open>bigint\<close> expression can throw: arithmetic on \<^verbatim>\<open>undefined\<close>
  (a non-null assertion \<^verbatim>\<open>R.x!\<close> on a missing coordinate) is a \<^verbatim>\<open>TypeError\<close>,
  division or remainder by \<^verbatim>\<open>0n\<close> a \<^verbatim>\<open>RangeError\<close>.
\<close>

datatype js_error = TypeError | RangeError

text \<open>
  \<^verbatim>\<open>FinitePoint\<close> (package finite-curve): the coordinates, \<^verbatim>\<open>undefined\<close> when
  absent, and the identity flag.
\<close>

record FinitePoint =
  P_x :: "int option"
  P_y :: "int option"
  isIdentity :: bool

text \<open>
  \<^verbatim>\<open>new FinitePoint()\<close>. The constructor belongs to the curve package; a fresh point
  is taken to have no coordinates. No result below depends on the flag of a fresh point.
\<close>

definition new_FinitePoint :: FinitePoint where
  "new_FinitePoint = \<lparr>P_x = None, P_y = None, isIdentity = True\<rparr>"

text \<open>
  \<^verbatim>\<open>FiniteDomain\<close> (package finite-domain): the group order \<^verbatim>\<open>T.n\<close>, the cofactor
  \<^verbatim>\<open>T.h\<close>, the generator \<^verbatim>\<open>T.G\<close>, and the arithmetic the protocol calls, which
  lives in other packages and is a parameter here: the scalar field \<^verbatim>\<open>T.F\<close>, the
  curve \<^verbatim>\<open>T.E\<close> with its base field \<^verbatim>\<open>T.E.F\<close> (of order \<open>EF_p\<close>), and
  \<^verbatim>\<open>T.divide\<close>. The curve operations write their result into their first argument
  and return it; here they return the value written. \<open>E_solve\<close> stands for
  \<^verbatim>\<open>T.E.solve\<close>, named \<^verbatim>\<open>T.E.solve_p3mod4\<close> in the class form.
\<close>

record FiniteDomain =
  T_n :: int
  T_h :: int
  T_G :: FinitePoint
  EF_p :: int
  F_add :: "int \<Rightarrow> int \<Rightarrow> int"
  F_multiply :: "int \<Rightarrow> int \<Rightarrow> int"
  F_divide :: "int \<Rightarrow> int \<Rightarrow> int"
  F_inverse :: "int \<Rightarrow> int"
  F_reciprocal :: "int \<Rightarrow> int"
  EF_add :: "int \<Rightarrow> int \<Rightarrow> int"
  E_multiply :: "int \<Rightarrow> FinitePoint \<Rightarrow> FinitePoint"
  E_add :: "FinitePoint \<Rightarrow> FinitePoint \<Rightarrow> FinitePoint"
  E_negate :: "FinitePoint \<Rightarrow> FinitePoint"
  E_solve :: "FinitePoint \<Rightarrow> FinitePoint"
  T_divide :: "int \<Rightarrow> FinitePoint \<Rightarrow> FinitePoint"

text \<open>
  The base form \<^verbatim>\<open>{ r, s }\<close> (the class \<^verbatim>\<open>Signature\<close> of the class form) and the
  recoverable form \<^verbatim>\<open>{ r, s, v }\<close>, which extends it.
\<close>

record Signature =
  sig_r :: int
  sig_s :: int

record RecoverableSignature = Signature +
  sig_v :: int

type_synonym 'S shape =
  "FiniteDomain \<Rightarrow> int \<Rightarrow> Uint8Array \<Rightarrow> int \<Rightarrow> int \<Rightarrow> int \<Rightarrow> FinitePoint \<Rightarrow> js_error + 'S"

section \<open>Signature shapes\<close>

definition fn_f6555a :: "int \<Rightarrow> int \<Rightarrow> Signature" where
  "fn_f6555a r s = \<lparr>sig_r = r, sig_s = s\<rparr>"

definition fn_f34c7e :: "Signature shape" where
  "fn_f34c7e T d M e r s R = Inr (fn_f6555a r s)"

text \<open>
  The low-s step of \<^verbatim>\<open>_033399_\<close>:
  \<^verbatim>\<open>if (s > n >> 1n) { s = n - s; v ^= 1n; }\<close>, on the pair \<open>(s, v)\<close>.
\<close>

definition low_s :: "int \<Rightarrow> int \<times> int \<Rightarrow> int \<times> int" where
  "low_s n sv = (if fst sv > drop_bit 1 n then (n - fst sv, snd sv XOR 1) else sv)"

text \<open>
  \<^verbatim>\<open>_033399_(r, s, R, n)\<close>: the discriminant \<open>v\<close> from the parity of \<^verbatim>\<open>R.y\<close> and
  from \<^verbatim>\<open>R.x / n\<close>, then the low-s step.
\<close>

definition fn_033399 :: "int \<Rightarrow> int \<Rightarrow> FinitePoint \<Rightarrow> int \<Rightarrow> js_error + RecoverableSignature" where
  "fn_033399 r s R n =
     (case P_y R of None \<Rightarrow> Inl TypeError | Some Y \<Rightarrow>
      case P_x R of None \<Rightarrow> Inl TypeError | Some X \<Rightarrow>
        if n = 0 then Inl RangeError
        else
          let v = 0;
              v = v OR (Y AND 1);
              v = v OR push_bit 1 (X sdiv n);
              sv = low_s n (s, v)
          in Inr \<lparr>sig_r = r, sig_s = fst sv, sig_v = snd sv\<rparr>)"

definition fn_30ecde :: "RecoverableSignature shape" where
  "fn_30ecde T d M e r s R = fn_033399 r s R (T_n T)"

section \<open>The signer\<close>

text \<open>
  The entropy source: \<open>rnd t i\<close> is byte \<open>i\<close> of the \<open>t\<close>-th call of
  \<^verbatim>\<open>crypto.getRandomValues(K)\<close>, which fills all of \<open>K\<close>.
\<close>

type_synonym entropy = "nat \<Rightarrow> nat \<Rightarrow> 8 word"

definition getRandomValues :: "entropy \<Rightarrow> nat \<Rightarrow> nat \<Rightarrow> Uint8Array" where
  "getRandomValues rnd t L = map (rnd t) [0 ..< L]"

text \<open>
  The rejection-sampling loop of \<^verbatim>\<open>_6dcb8a_\<close>:
  \<^verbatim>\<open>do crypto.getRandomValues(K) while (compare(K, N) >= 0 || compare(K, zero) == 0)\<close>.
  \<open>t\<close> counts the draws made so far; the loop gives up (\<open>None\<close>) after \<open>fuel\<close>
  draws, where the source would go on drawing. It returns the accepted bytes and the new
  count of draws.
\<close>

fun draw_nonce :: "entropy \<Rightarrow> nat \<Rightarrow> Uint8Array \<Rightarrow> Uint8Array \<Rightarrow> nat \<Rightarrow> nat \<Rightarrow> (Uint8Array \<times> nat) option" where
  "draw_nonce rnd L N zero t 0 = None"
| "draw_nonce rnd L N zero t (Suc fuel) =
     (let K = getRandomValues rnd t L
      in if compare K N \<ge> 0 \<or> compare K zero = 0
         then draw_nonce rnd L N zero (Suc t) fuel
         else Some (K, Suc t))"

text \<open>
  The \<^verbatim>\<open>while (true)\<close> loop of \<^verbatim>\<open>_6dcb8a_\<close>; every \<^verbatim>\<open>continue\<close> is the
  recursive call. \<open>rounds\<close> bounds the iterations of this loop, \<open>fuel\<close> the draws of
  each run of the inner loop. \<open>None\<close>: one of the bounds was reached. The point object
  \<open>R\<close> is written anew by \<^verbatim>\<open>T.E.multiply\<close> in every iteration. The remainder
  \<^verbatim>\<open>R.x % T.n\<close> never divides by zero: the inner loop accepts no draw unless
  \<open>n > 0\<close>.
\<close>

fun sign_loop :: "FiniteDomain \<Rightarrow> 'S shape \<Rightarrow> int \<Rightarrow> Uint8Array \<Rightarrow> int \<Rightarrow> nat \<Rightarrow> Uint8Array \<Rightarrow> Uint8Array
    \<Rightarrow> entropy \<Rightarrow> nat \<Rightarrow> nat \<Rightarrow> nat \<Rightarrow> (js_error + 'S) option" where
  "sign_loop T shape d M e L N zero rnd fuel t 0 = None"
| "sign_loop T shape d M e L N zero rnd fuel t (Suc rounds) =
     (case draw_nonce rnd L N zero t fuel of
        None \<Rightarrow> None
      | Some (K, t') \<Rightarrow>
          let k = uint8ArrayToBigint_LE K (Some L);
              R = E_multiply T k (T_G T)
          in case P_x R of
               None \<Rightarrow> sign_loop T shape d M e L N zero rnd fuel t' rounds
             | Some X \<Rightarrow>
                 let r = X smod T_n T
                 in if r = 0 then sign_loop T shape d M e L N zero rnd fuel t' rounds
                    else
                      let v77 = F_multiply T r d;
                          v68 = F_add T e v77;
                          s = F_divide T v68 k
                      in if s = 0 then sign_loop T shape d M e L N zero rnd fuel t' rounds
                         else Some (shape T d M e r s R))"

text \<open>
  \<^verbatim>\<open>_6dcb8a_(T, _ef_, _7f_)(d, M)\<close>, with the entropy source and the bound on both
  loops as further arguments.
\<close>

definition fn_6dcb8a :: "FiniteDomain \<Rightarrow> (Uint8Array \<Rightarrow> int) \<Rightarrow> 'S shape \<Rightarrow> entropy \<Rightarrow> nat
    \<Rightarrow> int \<Rightarrow> Uint8Array \<Rightarrow> (js_error + 'S) option" where
  "fn_6dcb8a T ef shape rnd fuel d M =
     (let nByteLength = nByteLength (T_n T);
          zero = replicate nByteLength 0;
          N = bigintToUint8Array_LE (T_n T) nByteLength;
          e = ef M
      in sign_loop T shape d M e nByteLength N zero rnd fuel 0 fuel)"

section \<open>The verifier\<close>

text \<open>
  \<^verbatim>\<open>Ecdsa.verify(Q, S, M)\<close> of the class \<^verbatim>\<open>_66a7cf_\<close> returns, for the domain
  \<open>T\<close> and the digest function \<open>a7\<close> of the instance.
\<close>

definition verify :: "FiniteDomain \<Rightarrow> (Uint8Array \<Rightarrow> int) \<Rightarrow> FinitePoint \<Rightarrow> 'a Signature_scheme
    \<Rightarrow> Uint8Array \<Rightarrow> js_error + bool" where
  "verify T a7 Q S M =
     (if sig_r S = 0 \<or> sig_r S \<ge> T_n T then Inr False
      else if sig_s S = 0 \<or> sig_s S \<ge> T_n T then Inr False
      else
        let e = a7 M;
            eG = E_multiply T e (T_G T);
            rQ = E_multiply T (sig_r S) Q;
            R = E_add T eG rQ;
            R = T_divide T (sig_s S) R
        in if isIdentity R then Inr False
           else case P_x R of
                  None \<Rightarrow> Inl TypeError
                | Some X \<Rightarrow> if T_n T = 0 then Inl RangeError else Inr (X smod T_n T = sig_r S))"

section \<open>The recoverers\<close>

text \<open>
  The inner loop of the generic recoverer, \<^verbatim>\<open>for (let k = 0; k < 2; k++)\<close>, with
  \<open>m\<close> iterations left: the points yielded and \<open>R\<close> as the loop leaves it.
\<close>

fun recover_inner :: "FiniteDomain \<Rightarrow> int \<Rightarrow> FinitePoint \<Rightarrow> int \<Rightarrow> FinitePoint \<Rightarrow> nat
    \<Rightarrow> FinitePoint list \<times> FinitePoint" where
  "recover_inner T s eG reciprocalR R 0 = ([], R)"
| "recover_inner T s eG reciprocalR R (Suc m) =
     (let Qa = E_multiply T s R;
          Qa = E_add T Qa eG;
          Qa = E_multiply T reciprocalR Qa;
          rest = recover_inner T s eG reciprocalR (E_negate T R) m
      in (Qa # fst rest, snd rest))"

text \<open>
  The outer loop of \<^verbatim>\<open>_2bfce0_\<close>,
  \<^verbatim>\<open>for (let j = 0n, jn = 0n; j <= T.h; j++, jn += T.n)\<close>: the list of the points it
  yields from \<open>j\<close> on. \<open>R\<close> is the one point object the loop keeps writing to.
\<close>

function recover_loop :: "FiniteDomain \<Rightarrow> int \<Rightarrow> int \<Rightarrow> FinitePoint \<Rightarrow> int \<Rightarrow> FinitePoint \<Rightarrow> int \<Rightarrow> int
    \<Rightarrow> FinitePoint list" where
  "recover_loop T r s eG reciprocalR R j jn =
     (if j \<le> T_h T then
        let R1 = R\<lparr>P_x := Some (EF_add T r jn)\<rparr>;
            R2 = E_solve T R1;
            nR = E_multiply T (T_n T) R2
        in if \<not> isIdentity nR then recover_loop T r s eG reciprocalR R2 (j + 1) (jn + T_n T)
           else
             let inner = recover_inner T s eG reciprocalR R2 2
             in fst inner @ recover_loop T r s eG reciprocalR (snd inner) (j + 1) (jn + T_n T)
      else [])"
  by pat_completeness auto
termination
  by (relation "measure (\<lambda>(T, r, s, eG, reciprocalR, R, j, jn). nat (T_h T + 1 - j))") auto

text \<open>
  \<^verbatim>\<open>_2bfce0_(T, _32_)(S, M)\<close>: the generator, as the list of the points it yields.
\<close>

definition fn_2bfce0 :: "FiniteDomain \<Rightarrow> (Uint8Array \<Rightarrow> int) \<Rightarrow> 'a Signature_scheme \<Rightarrow> Uint8Array
    \<Rightarrow> js_error + FinitePoint list" where
  "fn_2bfce0 T ef S M =
     (let R = new_FinitePoint\<lparr>isIdentity := False\<rparr>
      in if T_n T = 0 then Inl RangeError
         else
           let e = ef M smod T_n T;
               inverseE = F_inverse T e;
               eG = E_multiply T inverseE (T_G T);
               reciprocalR = F_reciprocal T (sig_r S)
           in Inr (recover_loop T (sig_r S) (sig_s S) eG reciprocalR R 0 0))"

text \<open>\<^verbatim>\<open>_560c92_(T, _d8_)(S, M)\<close>: the fast recoverer.\<close>

definition fn_560c92 :: "FiniteDomain \<Rightarrow> (Uint8Array \<Rightarrow> int) \<Rightarrow> RecoverableSignature \<Rightarrow> Uint8Array
    \<Rightarrow> js_error + FinitePoint" where
  "fn_560c92 T d8 S M =
     (let R = new_FinitePoint\<lparr>P_x := Some (sig_r S + drop_bit 1 (sig_v S) * T_n T)\<rparr>;
          R = E_solve T R
      in case P_y R of
           None \<Rightarrow> Inl TypeError
         | Some Y \<Rightarrow>
             let R = (if (sig_v S AND 1) XOR (Y AND 1) \<noteq> 0 then E_negate T R else R)
             in case P_x R of
                  None \<Rightarrow> Inl TypeError
                | Some X \<Rightarrow>
                    let ir = F_reciprocal T X
                    in if T_n T = 0 then Inl RangeError
                       else
                         let h = d8 M smod T_n T;
                             u1 = F_multiply T (F_inverse T h) ir;
                             u2 = F_multiply T (sig_s S) ir;
                             u1G = E_multiply T u1 (T_G T);
                             u2R = E_multiply T u2 R;
                             Q = E_add T u1G u2R
                         in Inr Q)"

section \<open>The class form\<close>

text \<open>
  The static methods of the class \<^verbatim>\<open>Ecdsa\<close>, which take the hash \<open>H\<close> and the
  number \<open>hashlen\<close> of its bytes to use. The nonce loop of \<^verbatim>\<open>Ecdsa.sign\<close> is
  \<^verbatim>\<open>do crypto.getRandomValues(K) while (compare(K, N) == 1 || compare(K, zero) == 0)\<close>.
\<close>

fun Ecdsa_draw_nonce :: "entropy \<Rightarrow> nat \<Rightarrow> Uint8Array \<Rightarrow> Uint8Array \<Rightarrow> nat \<Rightarrow> nat \<Rightarrow> (Uint8Array \<times> nat) option" where
  "Ecdsa_draw_nonce rnd L N zero t 0 = None"
| "Ecdsa_draw_nonce rnd L N zero t (Suc fuel) =
     (let K = getRandomValues rnd t L
      in if compare K N = 1 \<or> compare K zero = 0
         then Ecdsa_draw_nonce rnd L N zero (Suc t) fuel
         else Some (K, Suc t))"

fun Ecdsa_sign_loop :: "FiniteDomain \<Rightarrow> int \<Rightarrow> int \<Rightarrow> nat \<Rightarrow> Uint8Array \<Rightarrow> Uint8Array
    \<Rightarrow> entropy \<Rightarrow> nat \<Rightarrow> nat \<Rightarrow> nat \<Rightarrow> Signature option" where
  "Ecdsa_sign_loop T d e hashlen N zero rnd fuel t 0 = None"
| "Ecdsa_sign_loop T d e hashlen N zero rnd fuel t (Suc rounds) =
     (case Ecdsa_draw_nonce rnd hashlen N zero t fuel of
        None \<Rightarrow> None
      | Some (K, t') \<Rightarrow>
          let k = uint8ArrayToBigint_LE K (Some hashlen);
              R = E_multiply T k (T_G T)
          in case P_x R of
               None \<Rightarrow> Ecdsa_sign_loop T d e hashlen N zero rnd fuel t' rounds
             | Some X \<Rightarrow>
                 let r = X smod T_n T
                 in if r = 0 then Ecdsa_sign_loop T d e hashlen N zero rnd fuel t' rounds
                    else
                      let v77 = F_multiply T r d;
                          v68 = F_add T e v77;
                          s = F_divide T v68 k
                      in if s = 0 then Ecdsa_sign_loop T d e hashlen N zero rnd fuel t' rounds
                         else Some \<lparr>sig_r = r, sig_s = s\<rparr>)"

definition Ecdsa_sign :: "FiniteDomain \<Rightarrow> Uint8Array \<Rightarrow> int \<Rightarrow> nat \<Rightarrow> entropy \<Rightarrow> nat \<Rightarrow> Signature option" where
  "Ecdsa_sign T H d hashlen rnd fuel =
     (let zero = replicate hashlen 0;
          N = bigintToUint8Array_LE (T_n T) hashlen;
          e = uint8ArrayToBigint_LE H (Some hashlen)
      in Ecdsa_sign_loop T d e hashlen N zero rnd fuel 0 fuel)"

definition Ecdsa_verify :: "FinitePoint \<Rightarrow> FiniteDomain \<Rightarrow> Signature \<Rightarrow> Uint8Array \<Rightarrow> nat \<Rightarrow> js_error + bool" where
  "Ecdsa_verify Q T S H hashlen =
     (if sig_r S = 0 \<or> sig_r S \<ge> T_n T then Inr False
      else if sig_s S = 0 \<or> sig_s S \<ge> T_n T then Inr False
      else
        let e = uint8ArrayToBigint_LE H (Some hashlen);
            eG = E_multiply T e (T_G T);
            rQ = E_multiply T (sig_r S) Q;
            R = E_add T eG rQ;
            R = T_divide T (sig_s S) R
        in if isIdentity R then Inr False
           else case P_x R of
                  None \<Rightarrow> Inl TypeError
                | Some X \<Rightarrow> if T_n T = 0 then Inl RangeError else Inr (X smod T_n T = sig_r S))"

text \<open>
  \<^verbatim>\<open>Ecdsa.recover_p3mod4\<close>: the loop \<^verbatim>\<open>for (let j = 0n; j <= T.h; j++)\<close>, which
  computes \<open>jn\<close>, the digest integer and both inverses inside its body.
\<close>

function Ecdsa_recover_loop :: "FiniteDomain \<Rightarrow> Signature \<Rightarrow> Uint8Array \<Rightarrow> nat \<Rightarrow> FinitePoint \<Rightarrow> int
    \<Rightarrow> FinitePoint list" where
  "Ecdsa_recover_loop T S H hashlen R j =
     (if j \<le> T_h T then
        let jn = j * T_n T;
            R1 = R\<lparr>P_x := Some (EF_add T (sig_r S) jn)\<rparr>;
            R2 = E_solve T R1;
            nR = E_multiply T (T_n T) R2
        in if \<not> isIdentity nR then Ecdsa_recover_loop T S H hashlen R2 (j + 1)
           else
             let e = uint8ArrayToBigint_LE H (Some hashlen);
                 reciprocalR = F_reciprocal T (sig_r S);
                 inverseE = F_inverse T e;
                 eG = E_multiply T inverseE (T_G T);
                 inner = recover_inner T (sig_s S) eG reciprocalR R2 2
             in fst inner @ Ecdsa_recover_loop T S H hashlen (snd inner) (j + 1)
      else [])"
  by pat_completeness auto
termination
  by (relation "measure (\<lambda>(T, S, H, hashlen, R, j). nat (T_h T + 1 - j))") auto

definition Ecdsa_recover_p3mod4 :: "FiniteDomain \<Rightarrow> Signature \<Rightarrow> Uint8Array \<Rightarrow> nat \<Rightarrow> FinitePoint list" where
  "Ecdsa_recover_p3mod4 T S H hashlen =
     Ecdsa_recover_loop T S H hashlen (new_FinitePoint\<lparr>isIdentity := False\<rparr>) 0"

section \<open>The contract of the arithmetic packages\<close>

text \<open>\<open>kG T k\<close> is the point \<open>k\<cdot>G\<close>, as \<^verbatim>\<open>T.E.multiply\<close> computes it.\<close>

definition kG :: "FiniteDomain \<Rightarrow> int \<Rightarrow> FinitePoint" where
  "kG T k = E_multiply T k (T_G T)"

text \<open>
  Modelled from the spec: the field and curve arithmetic is not part of this repository
  (its sections 3 and 6 give the interface). \<open>arithmetic_contract T\<close> states what the
  protocol relies on, for scalars that are non-negative integers, of every operation but
  \<^verbatim>\<open>T.F.inverse\<close>:
  \<^item> the group order is above 1 and the cofactor is not negative;
  \<^item> \<^verbatim>\<open>T.F.add\<close>, \<^verbatim>\<open>T.F.multiply\<close> compute modulo \<open>n\<close>; \<^verbatim>\<open>T.F.reciprocal\<close> gives
    a multiplicative inverse modulo \<open>n\<close> of a scalar that is not a multiple of \<open>n\<close>;
    \<^verbatim>\<open>T.F.divide\<close> multiplies by the reciprocal; \<^verbatim>\<open>T.E.F.add\<close> computes modulo the
    base-field order;
  \<^item> on the multiples of \<open>G\<close>, \<^verbatim>\<open>T.E.multiply\<close>, \<^verbatim>\<open>T.E.add\<close> and \<^verbatim>\<open>T.E.negate\<close>
    are the operations of a cyclic group whose order divides \<open>n\<close>, and \<open>k\<cdot>G\<close> is the
    identity exactly when \<open>n\<close> divides \<open>k\<close>, which is exactly when it has no
    x-coordinate; \<^verbatim>\<open>T.divide\<close> multiplies by the reciprocal;
  \<^item> a multiple of \<open>G\<close> other than the identity has coordinates, which are not
    negative, the first below the base-field order; negation keeps the x-coordinate and
    changes the parity of the y-coordinate;
  \<^item> when the base-field order is 3 modulo 4, \<^verbatim>\<open>T.E.solve\<close> on a point object whose
    x-coordinate is that of a multiple \<open>P\<close> of \<open>G\<close> other than the identity gives
    \<open>P\<close> or \<open>- P\<close>.

  It says nothing of a negative scalar, nor of a point that is not a multiple of \<open>G\<close>.
\<close>

definition arithmetic_contract :: "FiniteDomain \<Rightarrow> bool" where
  "arithmetic_contract T \<longleftrightarrow>
     1 < T_n T \<and> 0 \<le> T_h T \<and>
     (\<forall>a b. 0 \<le> a \<and> 0 \<le> b \<longrightarrow> F_add T a b = (a + b) mod T_n T) \<and>
     (\<forall>a b. 0 \<le> a \<and> 0 \<le> b \<longrightarrow> F_multiply T a b = (a * b) mod T_n T) \<and>
     (\<forall>a. 0 \<le> a \<and> a mod T_n T \<noteq> 0 \<longrightarrow>
        0 \<le> F_reciprocal T a \<and> (a * F_reciprocal T a) mod T_n T = 1) \<and>
     (\<forall>a b. 0 \<le> a \<and> 0 \<le> b \<and> b mod T_n T \<noteq> 0 \<longrightarrow>
        F_divide T a b = F_multiply T a (F_reciprocal T b)) \<and>
     (\<forall>a b. 0 \<le> a \<and> 0 \<le> b \<longrightarrow> EF_add T a b = (a + b) mod EF_p T) \<and>
     (\<forall>a k. 0 \<le> a \<and> 0 \<le> k \<longrightarrow> E_multiply T a (kG T k) = kG T (a * k)) \<and>
     (\<forall>a b. 0 \<le> a \<and> 0 \<le> b \<longrightarrow> E_add T (kG T a) (kG T b) = kG T (a + b)) \<and>
     (\<forall>a b. 0 \<le> a \<and> 0 \<le> b \<and> (a + b) mod T_n T = 0 \<longrightarrow> E_negate T (kG T a) = kG T b) \<and>
     (\<forall>a b. 0 \<le> a \<and> 0 \<le> b \<and> a mod T_n T = b mod T_n T \<longrightarrow> kG T a = kG T b) \<and>
     (\<forall>a. 0 \<le> a \<longrightarrow>
        (isIdentity (kG T a) \<longleftrightarrow> a mod T_n T = 0) \<and> (P_x (kG T a) = None \<longleftrightarrow> a mod T_n T = 0)) \<and>
     (\<forall>s a. 0 \<le> s \<and> s mod T_n T \<noteq> 0 \<and> 0 \<le> a \<longrightarrow>
        T_divide T s (kG T a) = E_multiply T (F_reciprocal T s) (kG T a)) \<and>
     (\<forall>a. 0 \<le> a \<and> a mod T_n T \<noteq> 0 \<longrightarrow>
        (\<exists>X Y. P_x (kG T a) = Some X \<and> P_y (kG T a) = Some Y \<and> 0 \<le> X \<and> X < EF_p T \<and> 0 \<le> Y)) \<and>
     (\<forall>a Y Y'. 0 \<le> a \<and> a mod T_n T \<noteq> 0 \<and> P_y (kG T a) = Some Y \<and>
        P_y (E_negate T (kG T a)) = Some Y' \<longrightarrow>
        P_x (E_negate T (kG T a)) = P_x (kG T a) \<and> Y' AND 1 \<noteq> Y AND 1) \<and>
     (EF_p T mod 4 = 3 \<longrightarrow>
        (\<forall>a R. 0 \<le> a \<and> a mod T_n T \<noteq> 0 \<and> P_x R = P_x (kG T a) \<longrightarrow>
           E_solve T R = kG T a \<or> E_solve T R = E_negate T (kG T a)))"

text \<open>
  Modelled from the spec: \<^verbatim>\<open>T.F.inverse\<close> is not part of this repository. The spec's
  section 6 names two scalar-field operations, \<open>inverse(x)\<close> and \<open>reciprocal(x)\<close>, and
  describes the second as the multiplicative inverse modulo \<open>n\<close>; \<open>inverse\<close> is read as
  the other inverse of a field, the additive one. \<open>inverse_negates T a\<close> says that
  \<^verbatim>\<open>T.F.inverse\<close> returns, for the argument \<open>a\<close>, an integer that is not negative and
  that added to \<open>a\<close> gives a multiple of \<open>n\<close>. With it, the \<open>inverse(e)\<cdot>G\<close> that the
  recoverers add is the \<open>e\<cdot>G\<close> that the spec's sections 4.4 and 4.5 subtract.
\<close>

definition inverse_negates :: "FiniteDomain \<Rightarrow> int \<Rightarrow> bool" where
  "inverse_negates T a \<longleftrightarrow> 0 \<le> F_inverse T a \<and> (a + F_inverse T a) mod T_n T = 0"

text \<open>
  The contract of the packages: the arithmetic above, and \<^verbatim>\<open>T.F.inverse\<close> on the scalars
  below \<open>n\<close> (the generic form reduces the digest integer before it calls it).
\<close>

definition domain_contract :: "FiniteDomain \<Rightarrow> bool" where
  "domain_contract T \<longleftrightarrow>
     arithmetic_contract T \<and> (\<forall>a. 0 \<le> a \<and> a < T_n T \<longrightarrow> inverse_negates T a)"

section \<open>A small domain\<close>

text \<open>
  The curve \<open>y\<^sup>2 = x\<^sup>3 + x + 6\<close> over the field of 11 elements has 13 points, the
  multiples of \<open>G = (2, 7)\<close>: \<open>toy_table ! k\<close> is \<open>k\<cdot>G\<close>. Its arithmetic is written
  from this table; the square root is the power \<open>(11 + 1) / 4 = 3\<close>, and the
  reciprocal modulo 13 the power \<open>13 - 2\<close>.
\<close>

definition affine :: "int \<Rightarrow> int \<Rightarrow> FinitePoint" where
  "affine X Y = \<lparr>P_x = Some X, P_y = Some Y, isIdentity = False\<rparr>"

definition toy_table :: "FinitePoint list" where
  "toy_table =
     [\<lparr>P_x = None, P_y = None, isIdentity = True\<rparr>,
      affine 2 7, affine 5 2, affine 8 3, affine 10 2, affine 3 6, affine 7 9,
      affine 7 2, affine 3 5, affine 10 9, affine 8 8, affine 5 9, affine 2 4]"

definition toy_point :: "int \<Rightarrow> FinitePoint" where
  "toy_point k = toy_table ! nat (k mod 13)"

fun index_of :: "FinitePoint list \<Rightarrow> FinitePoint \<Rightarrow> nat" where
  "index_of [] P = 0"
| "index_of (Q # Qs) P = (if Q = P then 0 else Suc (index_of Qs P))"

definition toy_index :: "FinitePoint \<Rightarrow> int" where
  "toy_index P = int (index_of toy_table P)"

definition toy_multiply :: "int \<Rightarrow> FinitePoint \<Rightarrow> FinitePoint" where
  "toy_multiply a P = (if toy_index P < 13 then toy_point (a * toy_index P) else P)"

definition toy_add :: "FinitePoint \<Rightarrow> FinitePoint \<Rightarrow> FinitePoint" where
  "toy_add P Q = (if toy_index P < 13 \<and> toy_index Q < 13 then toy_point (toy_index P + toy_index Q) else P)"

definition toy_negate :: "FinitePoint \<Rightarrow> FinitePoint" where
  "toy_negate P = (if toy_index P < 13 then toy_point (- toy_index P) else P)"

definition toy_solve :: "FinitePoint \<Rightarrow> FinitePoint" where
  "toy_solve R =
     (case P_x R of
        None \<Rightarrow> R
      | Some X \<Rightarrow> affine X (((X ^ 3 + X + 6) ^ 3) mod 11))"

definition toy_reciprocal :: "int \<Rightarrow> int" where
  "toy_reciprocal a = (a ^ 11) mod 13"

definition toy :: FiniteDomain where
  "toy =
     \<lparr>T_n = 13, T_h = 1, T_G = affine 2 7, EF_p = 11,
      F_add = (\<lambda>a b. (a + b) mod 13),
      F_multiply = (\<lambda>a b. (a * b) mod 13),
      F_divide = (\<lambda>a b. (a * toy_reciprocal b) mod 13),
      F_inverse = (\<lambda>a. (- a) mod 13),
      F_reciprocal = toy_reciprocal,
      EF_add = (\<lambda>a b. (a + b) mod 11),
      E_multiply = toy_multiply,
      E_add = toy_add,
      E_negate = toy_negate,
      E_solve = toy_solve,
      T_divide = (\<lambda>s P. toy_multiply (toy_reciprocal s) P)\<rparr>"

section \<open>A domain with a cofactor\<close>

text \<open>
  The curve \<open>y\<^sup>2 = x\<^sup>3 + 19\<close> over the field of 31 elements has 21 points. The point
  \<open>G = (6, 7)\<close> has order \<open>n = 7\<close>, so the cofactor is \<open>h = 3\<close>, and the base-field
  order 31 is above \<open>(h + 1) \<cdot> n = 28\<close>: the multiples \<open>3\<cdot>G\<close> and \<open>4\<cdot>G\<close> have the
  x-coordinate 30. The arithmetic is the chord-and-tangent rule computed modulo 31, on any
  two points with coordinates; the reciprocal modulo 31 is the power \<open>31 - 2\<close>, a
  multiple is a repeated sum, the square root is the power \<open>(31 + 1) / 4 = 8\<close>, and the
  reciprocal modulo 7 is the power \<open>7 - 2\<close>. \<open>curve31_table ! k\<close> is \<open>k\<cdot>G\<close>.
\<close>

definition identity_point :: FinitePoint where
  "identity_point = \<lparr>P_x = None, P_y = None, isIdentity = True\<rparr>"

definition curve31_add :: "FinitePoint \<Rightarrow> FinitePoint \<Rightarrow> FinitePoint" where
  "curve31_add P Q =
     (if isIdentity P then Q
      else if isIdentity Q then P
      else case P_x P of None \<Rightarrow> P | Some x1 \<Rightarrow>
           case P_y P of None \<Rightarrow> P | Some y1 \<Rightarrow>
           case P_x Q of None \<Rightarrow> P | Some x2 \<Rightarrow>
           case P_y Q of None \<Rightarrow> P | Some y2 \<Rightarrow>
             if x1 = x2 \<and> (y1 + y2) mod 31 = 0 then identity_point
             else
               let l = (if x1 = x2 then 3 * x1 * x1 * ((2 * y1) ^ 29 mod 31)
                        else (y2 - y1) * ((x2 - x1) ^ 29 mod 31)) mod 31;
                   x3 = (l * l - x1 - x2) mod 31
               in affine x3 ((l * (x1 - x3) - y1) mod 31))"

fun curve31_times :: "nat \<Rightarrow> FinitePoint \<Rightarrow> FinitePoint" where
  "curve31_times 0 P = identity_point"
| "curve31_times (Suc k) P = curve31_add (curve31_times k P) P"

definition curve31_multiply :: "int \<Rightarrow> FinitePoint \<Rightarrow> FinitePoint" where
  "curve31_multiply a P = curve31_times (nat a) P"

definition curve31_negate :: "FinitePoint \<Rightarrow> FinitePoint" where
  "curve31_negate P = (case P_y P of None \<Rightarrow> P | Some Y \<Rightarrow> P\<lparr>P_y := Some ((- Y) mod 31)\<rparr>)"

definition curve31_solve :: "FinitePoint \<Rightarrow> FinitePoint" where
  "curve31_solve R =
     (case P_x R of
        None \<Rightarrow> R
      | Some X \<Rightarrow> affine X (((X ^ 3 + 19) ^ 8) mod 31))"

definition curve31_reciprocal :: "int \<Rightarrow> int" where
  "curve31_reciprocal a = (a ^ 5) mod 7"

definition curve31 :: FiniteDomain where
  "curve31 =
     \<lparr>T_n = 7, T_h = 3, T_G = affine 6 7, EF_p = 31,
      F_add = (\<lambda>a b. (a + b) mod 7),
      F_multiply = (\<lambda>a b. (a * b) mod 7),
      F_divide = (\<lambda>a b. (a * curve31_reciprocal b) mod 7),
      F_inverse = (\<lambda>a. (- a) mod 7),
      F_reciprocal = curve31_reciprocal,
      EF_add = (\<lambda>a b. (a + b) mod 31),
      E_multiply = curve31_multiply,
      E_add = curve31_add,
      E_negate = curve31_negate,
      E_solve = curve31_solve,
      T_divide = (\<lambda>s P. curve31_multiply (curve31_reciprocal s) P)\<rparr>"

definition curve31_table :: "FinitePoint list" where
  "curve31_table =
     [identity_point, affine 6 7, affine 26 7, affine 30 24, affine 30 7, affine 26 24, affine 6 24]"

definition curve31_point :: "int \<Rightarrow> FinitePoint" where
  "curve31_point k = curve31_table ! nat (k mod 7)"

section \<open>The recovery formula of the spec\<close>

text \<open>
  The candidate of the spec's section 4.4, \<open>r\<^sup>-\<^sup>1 \<cdot> (s\<cdot>R - e\<cdot>G)\<close>, written with the
  operations of the domain: the reciprocal of the scalar field, and the negation of the
  point \<open>e\<cdot>G\<close> for the subtraction. The recoverers do not call it; the claim about the
  generic recoverer compares with it.
\<close>

definition candidate_formula :: "FiniteDomain \<Rightarrow> int \<Rightarrow> int \<Rightarrow> int \<Rightarrow> FinitePoint \<Rightarrow> FinitePoint" where
  "candidate_formula T r s e R =
     E_multiply T (F_reciprocal T r) (E_add T (E_multiply T s R) (E_negate T (E_multiply T e (T_G T))))"

text \<open>
  The candidates of the spec's section 4.4, from \<open>j\<close> on: for each \<open>j \<le> h\<close> the
  point \<open>R\<close> that \<^verbatim>\<open>T.E.solve\<close> gives for the x-coordinate \<open>r + j\<cdot>n\<close> of the base
  field; when \<open>n\<cdot>R\<close> is the identity, the candidate of the formula for \<open>R\<close> and the one
  for \<open>- R\<close>. The solver is handed a point object, the one the previous steps left; the
  first argument \<open>R\<close> here is that object.
\<close>

function spec_candidates :: "FiniteDomain \<Rightarrow> int \<Rightarrow> int \<Rightarrow> int \<Rightarrow> FinitePoint \<Rightarrow> int \<Rightarrow> FinitePoint list" where
  "spec_candidates T r s e R j =
     (if j \<le> T_h T then
        let R' = E_solve T (R\<lparr>P_x := Some (EF_add T r (j * T_n T))\<rparr>)
        in if isIdentity (E_multiply T (T_n T) R')
           then candidate_formula T r s e R' # candidate_formula T r s e (E_negate T R') #
                spec_candidates T r s e (E_negate T (E_negate T R')) (j + 1)
           else spec_candidates T r s e R' (j + 1)
      else [])"
  by pat_completeness auto
termination
  by (relation "measure (\<lambda>(T, r, s, e, R, j). nat (T_h T + 1 - j))") auto

section \<open>The exit of the signing loop\<close>

text \<open>
  What holds when either signing loop leaves through its \<^verbatim>\<open>return\<close> with the nonce
  \<open>k\<close>: the point \<open>k\<cdot>G\<close> has an x-coordinate, \<open>r\<close> is its remainder and not zero,
  and \<open>s\<close> is the quotient the loop computed and not zero.
\<close>

definition signing_equation :: "FiniteDomain \<Rightarrow> int \<Rightarrow> int \<Rightarrow> int \<Rightarrow> int \<Rightarrow> int \<Rightarrow> bool" where
  "signing_equation T d e k r s \<longleftrightarrow>
     0 \<le> k \<and> (\<exists>X. P_x (kG T k) = Some X \<and> r = X smod T_n T) \<and> r \<noteq> 0 \<and>
     s = F_divide T (F_add T e (F_multiply T r d)) k \<and> s \<noteq> 0"

declare LE_loop.simps [simp del]
declare byteLength_loop.simps [simp del]
declare recover_loop.simps [simp del]
declare Ecdsa_recover_loop.simps [simp del]
declare spec_candidates.simps [simp del]

section \<open>Little-endian encoding and decoding\<close>

lemma LE_loop_length: "length (LE_loop a b i) = length a"
  by (induction a b i rule: LE_loop.induct) (simp del: LE_loop.simps add: LE_loop.simps [of _ b i for b i])

lemma LE_loop_nth:
  "0 \<le> b \<Longrightarrow> b < 2 ^ (8 * (length a - i)) \<Longrightarrow> (\<forall>j. i \<le> j \<and> j < length a \<longrightarrow> a ! j = 0) \<Longrightarrow> j < length a
   \<Longrightarrow> LE_loop a b i ! j = (if j < i then a ! j else word_of_int (drop_bit (8 * (j - i)) b))"
proof (induction a b i rule: LE_loop.induct)
  case (1 a b i)
  show ?case
  proof (cases "b > 0")
    case False
    with "1.prems" have "b = 0" by simp
    then show ?thesis using "1.prems" by (simp add: LE_loop.simps [of a 0 i])
  next
    case True
    have il: "i < length a"
    proof (rule ccontr)
      assume "\<not> i < length a"
      then have "length a - i = 0" by simp
      with "1.prems"(2) True show False by simp
    qed
    let ?a = "a[i := word_of_int (b AND 255)]"
    have b1: "0 \<le> drop_bit 8 b" using "1.prems"(1) by simp
    have "length a - i = Suc (length a - Suc i)" using il by simp
    then have "b < 256 * 2 ^ (8 * (length a - Suc i))"
      using "1.prems"(2) by (simp add: power_add)
    moreover have "b < 256 * M \<Longrightarrow> b div 256 < M" for M :: int by linarith
    ultimately have b2: "drop_bit 8 b < 2 ^ (8 * (length ?a - Suc i))"
      by (simp add: drop_bit_eq_div)
    have z: "\<forall>j. Suc i \<le> j \<and> j < length ?a \<longrightarrow> ?a ! j = 0"
      using "1.prems"(3) by simp
    have jl: "j < length ?a" using "1.prems"(4) by simp
    have IH: "LE_loop ?a (drop_bit 8 b) (Suc i) ! j =
        (if j < Suc i then ?a ! j else word_of_int (drop_bit (8 * (j - Suc i)) (drop_bit 8 b)))"
      using "1.IH" [OF True b1 b2 z jl] .
    have "(255::int) = mask 8" by (simp add: mask_eq_exp_minus_1)
    then have "b AND 255 = take_bit 8 b" by (simp add: take_bit_eq_mask)
    then have w: "(word_of_int (b AND 255) :: 8 word) = word_of_int b"
      by (simp add: word_of_int_eq_iff)
    have step: "LE_loop a b i = LE_loop ?a (drop_bit 8 b) (Suc i)"
      using True by (simp add: LE_loop.simps [of a b i])
    show ?thesis
    proof (cases "j < i")
      case True
      then show ?thesis using IH step by simp
    next
      case False
      show ?thesis
      proof (cases "j = i")
        case True
        then show ?thesis using IH step il w by simp
      next
        case False
        with \<open>\<not> j < i\<close> have "i < j" by simp
        then have "8 * (j - Suc i) + 8 = 8 * (j - i)" by simp
        then have "drop_bit (8 * (j - Suc i)) (drop_bit 8 b) = drop_bit (8 * (j - i)) b"
          by (simp add: drop_bit_drop_bit add.commute)
        then show ?thesis using IH step \<open>i < j\<close> by simp
      qed
    qed
  qed
qed

lemma fold_upt_sum:
  "fold (\<lambda>i b. b + f i) [0 ..< m] (0::int) = (\<Sum>i<m. f i)"
  by (induction m) simp_all

lemma sum_bytes_take_bit:
  "(\<Sum>i<m. push_bit (8 * i) (take_bit 8 (drop_bit (8 * i) b))) = take_bit (8 * m) (b::int)"
proof (induction m)
  case 0
  show ?case by simp
next
  case (Suc m)
  have "take_bit (8 * Suc m) b = take_bit (8 * m + 8) b" by (simp add: add.commute)
  also have "\<dots> = take_bit (8 * m) b + push_bit (8 * m) (take_bit 8 (drop_bit (8 * m) b))"
    using bits_ident [of "8 * m" "take_bit (8 * m + 8) b"]
    by (simp add: drop_bit_take_bit take_bit_take_bit min_def add.commute)
  finally show ?case using Suc by simp
qed

lemma LE_decode_encode:
  assumes "0 \<le> b" "b < 2 ^ (8 * B)"
  shows "uint8ArrayToBigint_LE (bigintToUint8Array_LE b B) (Some B) = b"
proof -
  let ?a = "bigintToUint8Array_LE b B"
  have len: "length ?a = B" by (simp add: bigintToUint8Array_LE_def LE_loop_length)
  have nth: "?a ! j = word_of_int (drop_bit (8 * j) b)" if "j < B" for j
    unfolding bigintToUint8Array_LE_def
    using LE_loop_nth [of b "replicate B 0" 0 j] assms that by simp
  have "uint8ArrayToBigint_LE ?a (Some B) = (\<Sum>i<B. push_bit (push_bit 3 i) (uint (?a ! i)))"
    by (simp add: uint8ArrayToBigint_LE_def len fold_upt_sum)
  also have "\<dots> = (\<Sum>i<B. push_bit (8 * i) (take_bit 8 (drop_bit (8 * i) b)))"
    by (rule sum.cong) (simp_all add: nth push_bit_eq_mult uint_word_of_int_eq mult.commute)
  also have "\<dots> = take_bit (8 * B) b" by (rule sum_bytes_take_bit)
  also have "\<dots> = b" using assms by (simp add: take_bit_int_eq_self)
  finally show ?thesis .
qed

text \<open>
  Claim C10. For every byte length \<open>B\<close> and every integer \<open>b\<close> with
  \<open>0 \<le> b < 2\<^bsup>8 B\<^esup>\<close>, decoding \<open>B\<close> bytes of the little-endian encoding of
  \<open>b\<close> in \<open>B\<close> bytes gives \<open>b\<close> back.
\<close>

theorem LE_roundtrip:
  assumes "0 \<le> b" "b < 2 ^ (8 * B)"
  shows "uint8ArrayToBigint_LE (bigintToUint8Array_LE b B) (Some B) = b"
  using assms by (rule LE_decode_encode)

theorem LE_roundtrip_witness:
  "(0::int) \<le> 513 \<and> (513::int) < 2 ^ (8 * 2) \<and>
   uint8ArrayToBigint_LE (bigintToUint8Array_LE 513 2) (Some 2) = 513"
  using LE_roundtrip [of 513 2] by simp

section \<open>The small domain meets the contract\<close>

lemma toy_table_index: "\<forall>i\<in>{0..<13::nat}. index_of toy_table (toy_table ! i) = i"
  by code_simp

lemma toy_table_x: "\<forall>i\<in>{0..<13::nat}. (P_x (toy_table ! i) = None) = (i = 0) \<and> (isIdentity (toy_table ! i)) = (i = 0)"
  by code_simp

lemma toy_table_coords: "\<forall>i\<in>{1..<13::nat}. P_x (toy_table ! i) \<noteq> None \<and> P_y (toy_table ! i) \<noteq> None \<and>
    0 \<le> the (P_x (toy_table ! i)) \<and> the (P_x (toy_table ! i)) < 11 \<and> 0 \<le> the (P_y (toy_table ! i))"
  by code_simp

lemma toy_table_neg: "\<forall>i\<in>{1..<13::nat}. P_x (toy_table ! (13 - i)) = P_x (toy_table ! i) \<and>
   the (P_y (toy_table ! (13 - i))) AND 1 \<noteq> the (P_y (toy_table ! i)) AND 1"
  by code_simp

lemma toy_table_solve: "\<forall>i\<in>{1..<13::nat}. toy_solve (toy_table ! i) = toy_table ! i \<or>
    toy_solve (toy_table ! i) = toy_table ! (13 - i)"
  by code_simp

lemma toy_solve_x: "P_x R = P_x R' \<Longrightarrow> P_x R \<noteq> None \<Longrightarrow> toy_solve R = toy_solve R'"
  by (auto simp: toy_solve_def)

lemma toy_recip: "\<forall>i\<in>{1..<13::int}. (i * toy_reciprocal i) mod 13 = 1"
  by code_simp


lemma toy_residue: "nat (k mod 13) \<in> {0..<13}"
  by simp

lemma toy_residue_pos: "nat (k mod 13) \<in> {1..<13}" if "k mod 13 \<noteq> 0"
proof -
  have "0 \<le> k mod 13" and "k mod 13 < 13" by simp_all
  with that have "1 \<le> k mod 13" by linarith
  with \<open>k mod 13 < 13\<close> show ?thesis by (simp add: Suc_le_eq nat_less_iff)
qed

lemma toy_sel:
  "T_n toy = 13" "T_h toy = 1" "T_G toy = affine 2 7" "EF_p toy = 11"
  "F_add toy = (\<lambda>a b. (a + b) mod 13)"
  "F_multiply toy = (\<lambda>a b. (a * b) mod 13)"
  "F_divide toy = (\<lambda>a b. (a * toy_reciprocal b) mod 13)"
  "F_inverse toy = (\<lambda>a. (- a) mod 13)"
  "F_reciprocal toy = toy_reciprocal"
  "EF_add toy = (\<lambda>a b. (a + b) mod 11)"
  "E_multiply toy = toy_multiply"
  "E_add toy = toy_add"
  "E_negate toy = toy_negate"
  "E_solve toy = toy_solve"
  "T_divide toy = (\<lambda>s P. toy_multiply (toy_reciprocal s) P)"
  by (simp_all add: toy_def)

lemma toy_index_point: "toy_index (toy_point k) = k mod 13"
  using bspec [OF toy_table_index toy_residue [of k]] by (simp add: toy_index_def toy_point_def)

lemma toy_point_cong: "a mod 13 = b mod 13 \<Longrightarrow> toy_point a = toy_point b"
  by (simp add: toy_point_def)

lemma toy_multiply_point: "toy_multiply a (toy_point k) = toy_point (a * k)"
proof -
  have "toy_multiply a (toy_point k) = toy_point (a * (k mod 13))"
    by (simp add: toy_multiply_def toy_index_point)
  also have "\<dots> = toy_point (a * k)"
    by (rule toy_point_cong) (simp add: mod_mult_right_eq)
  finally show ?thesis .
qed

lemma toy_add_point: "toy_add (toy_point a) (toy_point b) = toy_point (a + b)"
proof -
  have "toy_add (toy_point a) (toy_point b) = toy_point (a mod 13 + b mod 13)"
    by (simp add: toy_add_def toy_index_point)
  also have "\<dots> = toy_point (a + b)"
    by (rule toy_point_cong) (simp add: mod_add_eq)
  finally show ?thesis .
qed

lemma toy_negate_point: "toy_negate (toy_point a) = toy_point (- a)"
proof -
  have "toy_negate (toy_point a) = toy_point (- (a mod 13))"
    by (simp add: toy_negate_def toy_index_point)
  also have "\<dots> = toy_point (- a)"
    by (rule toy_point_cong) (simp add: mod_minus_eq)
  finally show ?thesis .
qed

lemma toy_G: "affine 2 7 = toy_point 1"
  by (simp add: toy_point_def toy_table_def)

lemma kG_toy: "kG toy k = toy_point k"
  using toy_multiply_point [of k 1] by (simp add: kG_def toy_sel toy_G)

lemma toy_point_negate_index:
  assumes "a mod 13 \<noteq> 0"
  shows "toy_point (- a) = toy_table ! (13 - nat (a mod 13))"
proof -
  have "(- a) mod 13 = 13 - a mod 13" using assms by (simp add: zmod_zminus1_eq_if)
  moreover have "nat (13 - a mod 13) = 13 - nat (a mod 13)" by (simp add: nat_diff_distrib')
  ultimately show ?thesis by (simp add: toy_point_def)
qed

lemma toy_reciprocal_mod: "(a * toy_reciprocal a) mod 13 = 1" if "a mod 13 \<noteq> 0"
proof -
  have "0 \<le> a mod 13" and "a mod 13 < 13" by simp_all
  with that have "a mod 13 \<in> {1..<13}" by simp
  from bspec [OF toy_recip this]
  have "((a mod 13) * ((a mod 13) ^ 11 mod 13)) mod 13 = 1" by (simp add: toy_reciprocal_def)
  moreover have "(a mod 13) ^ 11 mod 13 = a ^ 11 mod 13" by (rule power_mod)
  ultimately have "((a mod 13) * (a ^ 11 mod 13)) mod 13 = 1" by simp
  then show ?thesis by (simp add: toy_reciprocal_def mod_mult_left_eq)
qed

lemma neg_mod_eq: "(- a) mod n = b mod n" if "(a + b) mod n = 0" for a b n :: int
proof -
  have "(- a) mod n = (b - (a + b)) mod n" by simp
  also have "\<dots> = (b - (a + b) mod n) mod n" by (simp only: mod_diff_right_eq)
  also have "\<dots> = b mod n" using that by simp
  finally show ?thesis .
qed

lemma toy_c_add: "\<forall>a b. 0 \<le> a \<and> 0 \<le> b \<longrightarrow> F_add toy a b = (a + b) mod T_n toy"
  by (simp add: toy_sel)

lemma toy_c_multiply: "\<forall>a b. 0 \<le> a \<and> 0 \<le> b \<longrightarrow> F_multiply toy a b = (a * b) mod T_n toy"
  by (simp add: toy_sel)

lemma toy_c_inverse: "\<forall>a. 0 \<le> a \<and> a < T_n toy \<longrightarrow> 0 \<le> F_inverse toy a \<and> (a + F_inverse toy a) mod T_n toy = 0"
  by (simp add: toy_sel mod_add_right_eq)

lemma toy_c_reciprocal: "\<forall>a. 0 \<le> a \<and> a mod T_n toy \<noteq> 0 \<longrightarrow>
        0 \<le> F_reciprocal toy a \<and> (a * F_reciprocal toy a) mod T_n toy = 1"
  using toy_reciprocal_mod by (simp add: toy_sel) (simp add: toy_reciprocal_def)

lemma toy_c_divide: "\<forall>a b. 0 \<le> a \<and> 0 \<le> b \<and> b mod T_n toy \<noteq> 0 \<longrightarrow>
        F_divide toy a b = F_multiply toy a (F_reciprocal toy b)"
  by (simp add: toy_sel)

lemma toy_c_EF_add: "\<forall>a b. 0 \<le> a \<and> 0 \<le> b \<longrightarrow> EF_add toy a b = (a + b) mod EF_p toy"
  by (simp add: toy_sel)

lemma toy_c_E_multiply: "\<forall>a k. 0 \<le> a \<and> 0 \<le> k \<longrightarrow> E_multiply toy a (kG toy k) = kG toy (a * k)"
  by (simp add: kG_toy toy_multiply_point toy_sel)

lemma toy_c_E_add: "\<forall>a b. 0 \<le> a \<and> 0 \<le> b \<longrightarrow> E_add toy (kG toy a) (kG toy b) = kG toy (a + b)"
  by (simp add: kG_toy toy_add_point toy_sel)

lemma toy_E_negate: "E_negate toy (kG toy a) = toy_point (- a)"
  by (simp add: kG_toy toy_negate_point toy_sel)

lemma toy_c_E_negate: "\<forall>a b. 0 \<le> a \<and> 0 \<le> b \<and> (a + b) mod T_n toy = 0 \<longrightarrow> E_negate toy (kG toy a) = kG toy b"
proof (intro allI impI)
  fix a b :: int
  assume "0 \<le> a \<and> 0 \<le> b \<and> (a + b) mod T_n toy = 0"
  then have "(a + b) mod 13 = 0" by (simp add: toy_sel)
  then have "(- a) mod 13 = b mod 13" by (rule neg_mod_eq)
  then have "toy_point (- a) = toy_point b" by (rule toy_point_cong)
  then show "E_negate toy (kG toy a) = kG toy b"
    by (simp add: kG_toy toy_sel toy_negate_point)
qed

lemma toy_c_cong: "\<forall>a b. 0 \<le> a \<and> 0 \<le> b \<and> a mod T_n toy = b mod T_n toy \<longrightarrow> kG toy a = kG toy b"
proof (intro allI impI)
  fix a b :: int
  assume "0 \<le> a \<and> 0 \<le> b \<and> a mod T_n toy = b mod T_n toy"
  then have "a mod 13 = b mod 13" by (simp add: toy_sel)
  then have "toy_point a = toy_point b" by (rule toy_point_cong)
  then show "kG toy a = kG toy b" by (simp add: kG_toy)
qed

lemma toy_c_identity: "\<forall>a. 0 \<le> a \<longrightarrow>
        (isIdentity (kG toy a) \<longleftrightarrow> a mod T_n toy = 0) \<and> (P_x (kG toy a) = None \<longleftrightarrow> a mod T_n toy = 0)"
proof (intro allI impI)
  fix a :: int
  have "0 \<le> a mod 13" by simp
  then have "nat (a mod 13) = 0 \<longleftrightarrow> a mod 13 = 0" by linarith
  then show "(isIdentity (kG toy a) \<longleftrightarrow> a mod T_n toy = 0) \<and> (P_x (kG toy a) = None \<longleftrightarrow> a mod T_n toy = 0)"
    using bspec [OF toy_table_x toy_residue [of a]] by (simp add: kG_toy toy_point_def toy_sel)
qed

lemma toy_c_divide_point: "\<forall>s a. 0 \<le> s \<and> s mod T_n toy \<noteq> 0 \<and> 0 \<le> a \<longrightarrow>
        T_divide toy s (kG toy a) = E_multiply toy (F_reciprocal toy s) (kG toy a)"
  by (simp add: toy_sel)

lemma toy_c_coords: "\<forall>a. 0 \<le> a \<and> a mod T_n toy \<noteq> 0 \<longrightarrow>
        (\<exists>X Y. P_x (kG toy a) = Some X \<and> P_y (kG toy a) = Some Y \<and> 0 \<le> X \<and> X < EF_p toy \<and> 0 \<le> Y)"
proof (intro allI impI)
  fix a :: int
  assume "0 \<le> a \<and> a mod T_n toy \<noteq> 0"
  then have "a mod 13 \<noteq> 0" by (simp add: toy_sel)
  from bspec [OF toy_table_coords toy_residue_pos [OF this]]
  show "\<exists>X Y. P_x (kG toy a) = Some X \<and> P_y (kG toy a) = Some Y \<and> 0 \<le> X \<and> X < EF_p toy \<and> 0 \<le> Y"
    by (auto simp: kG_toy toy_point_def toy_sel)
qed

lemma toy_c_parity: "\<forall>a Y Y'. 0 \<le> a \<and> a mod T_n toy \<noteq> 0 \<and> P_y (kG toy a) = Some Y \<and>
        P_y (E_negate toy (kG toy a)) = Some Y' \<longrightarrow>
        P_x (E_negate toy (kG toy a)) = P_x (kG toy a) \<and> Y' AND 1 \<noteq> Y AND 1"
proof (intro allI impI)
  fix a Y Y' :: int
  assume A: "0 \<le> a \<and> a mod T_n toy \<noteq> 0 \<and> P_y (kG toy a) = Some Y \<and>
        P_y (E_negate toy (kG toy a)) = Some Y'"
  then have a: "a mod 13 \<noteq> 0" by (simp add: toy_sel)
  have n: "E_negate toy (kG toy a) = toy_table ! (13 - nat (a mod 13))"
    by (simp add: toy_E_negate toy_point_negate_index [OF a])
  have p: "kG toy a = toy_table ! nat (a mod 13)"
    by (simp add: kG_toy toy_point_def)
  define P where "P = kG toy a"
  define N where "N = E_negate toy (kG toy a)"
  have "P_y P = Some Y" and "P_y N = Some Y'" using A by (simp_all add: P_def N_def)
  moreover have Pp: "P = toy_table ! nat (a mod 13)" by (simp only: P_def p)
  have Nn: "N = toy_table ! (13 - nat (a mod 13))" by (simp only: N_def n)
  have "P_x N = P_x P \<and> the (P_y N) AND 1 \<noteq> the (P_y P) AND 1"
    using bspec [OF toy_table_neg toy_residue_pos [OF a]] by (simp add: Pp Nn)
  ultimately have "P_x N = P_x P \<and> Y' AND 1 \<noteq> Y AND 1" by simp
  then show "P_x (E_negate toy (kG toy a)) = P_x (kG toy a) \<and> Y' AND 1 \<noteq> Y AND 1"
    by (simp add: P_def N_def)
qed

lemma toy_c_solve: "EF_p toy mod 4 = 3 \<longrightarrow>
        (\<forall>a R. 0 \<le> a \<and> a mod T_n toy \<noteq> 0 \<and> P_x R = P_x (kG toy a) \<longrightarrow>
           E_solve toy R = kG toy a \<or> E_solve toy R = E_negate toy (kG toy a))"
proof (intro allI impI)
  fix a :: int and R :: FinitePoint
  assume A: "0 \<le> a \<and> a mod T_n toy \<noteq> 0 \<and> P_x R = P_x (kG toy a)"
  then have a: "a mod 13 \<noteq> 0" by (simp add: toy_sel)
  have x: "P_x R = P_x (toy_point a)" using A by (simp add: kG_toy)
  have "P_x (toy_point a) \<noteq> None"
    using bspec [OF toy_table_coords toy_residue_pos [OF a]] by (simp add: toy_point_def)
  with x have "toy_solve R = toy_solve (toy_point a)" by (intro toy_solve_x) simp_all
  moreover have "toy_solve (toy_point a) = toy_point a \<or> toy_solve (toy_point a) = toy_point (- a)"
    using bspec [OF toy_table_solve toy_residue_pos [OF a]]
    unfolding toy_point_negate_index [OF a] by (simp add: toy_point_def)
  ultimately have "toy_solve R = toy_point a \<or> toy_solve R = toy_point (- a)" by simp
  then show "E_solve toy R = kG toy a \<or> E_solve toy R = E_negate toy (kG toy a)"
    by (simp add: kG_toy toy_sel toy_negate_point)
qed

lemma toy_arithmetic: "arithmetic_contract toy"
  unfolding arithmetic_contract_def
  by (intro conjI)
    (simp add: toy_sel, simp add: toy_sel,
     rule toy_c_add, rule toy_c_multiply, rule toy_c_reciprocal,
     rule toy_c_divide, rule toy_c_EF_add, rule toy_c_E_multiply, rule toy_c_E_add,
     rule toy_c_E_negate, rule toy_c_cong, rule toy_c_identity, rule toy_c_divide_point,
     rule toy_c_coords, rule toy_c_parity, rule toy_c_solve)

lemma toy_contract: "domain_contract toy"
  unfolding domain_contract_def inverse_negates_def
  by (rule conjI, rule toy_arithmetic, rule toy_c_inverse)

section \<open>The domain with a cofactor meets the contract\<close>

lemma curve31_sel:
  "T_n curve31 = 7" "T_h curve31 = 3" "T_G curve31 = affine 6 7" "EF_p curve31 = 31"
  "F_add curve31 = (\<lambda>a b. (a + b) mod 7)"
  "F_multiply curve31 = (\<lambda>a b. (a * b) mod 7)"
  "F_divide curve31 = (\<lambda>a b. (a * curve31_reciprocal b) mod 7)"
  "F_inverse curve31 = (\<lambda>a. (- a) mod 7)"
  "F_reciprocal curve31 = curve31_reciprocal"
  "EF_add curve31 = (\<lambda>a b. (a + b) mod 31)"
  "E_multiply curve31 = curve31_multiply"
  "E_add curve31 = curve31_add"
  "E_negate curve31 = curve31_negate"
  "E_solve curve31 = curve31_solve"
  "T_divide curve31 = (\<lambda>s P. curve31_multiply (curve31_reciprocal s) P)"
  by (simp_all add: curve31_def)

lemma curve31_table_add:
  "\<forall>i\<in>{0..<7::nat}. \<forall>j\<in>{0..<7::nat}.
     curve31_add (curve31_table ! i) (curve31_table ! j) = curve31_table ! ((i + j) mod 7)"
  by code_simp

lemma curve31_table_negate:
  "\<forall>i\<in>{0..<7::nat}. curve31_negate (curve31_table ! i) = curve31_table ! ((7 - i) mod 7)"
  by code_simp

lemma curve31_table_identity:
  "\<forall>i\<in>{0..<7::int}. (P_x (curve31_point i) = None) = (i = 0) \<and> isIdentity (curve31_point i) = (i = 0)"
  by code_simp

lemma curve31_table_coords:
  "\<forall>i\<in>{1..<7::int}. P_x (curve31_point i) \<noteq> None \<and> P_y (curve31_point i) \<noteq> None \<and>
     0 \<le> the (P_x (curve31_point i)) \<and> the (P_x (curve31_point i)) < 31 \<and>
     0 \<le> the (P_y (curve31_point i))"
  by code_simp

lemma curve31_table_parity:
  "\<forall>i\<in>{1..<7::int}. P_x (curve31_point (- i)) = P_x (curve31_point i) \<and>
     the (P_y (curve31_point (- i))) AND 1 \<noteq> the (P_y (curve31_point i)) AND 1"
  by code_simp

lemma curve31_table_solve:
  "\<forall>i\<in>{1..<7::nat}. curve31_solve (curve31_table ! i) = curve31_table ! i \<or>
     curve31_solve (curve31_table ! i) = curve31_table ! (7 - i)"
  by code_simp

lemma curve31_table_reciprocal: "\<forall>i\<in>{1..<7::int}. (i * curve31_reciprocal i) mod 7 = 1"
  by code_simp

lemma curve31_residue: "k mod 7 \<in> {0..<7::int}"
  by simp

lemma curve31_residue_pos: "k mod 7 \<in> {1..<7::int}" if "k mod 7 \<noteq> 0"
proof -
  have "0 \<le> k mod 7" and "k mod 7 < 7" by simp_all
  with that show ?thesis by simp
qed

lemma curve31_point_mod: "curve31_point (a mod 7) = curve31_point a"
  by (simp add: curve31_point_def)

lemma curve31_point_cong: "a mod 7 = b mod 7 \<Longrightarrow> curve31_point a = curve31_point b"
  by (simp add: curve31_point_def)

lemma curve31_index: "nat (k mod 7) \<in> {0..<7}"
  by simp

lemma curve31_index_pos: "nat (k mod 7) \<in> {1..<7}" if "k mod 7 \<noteq> 0"
proof -
  have "0 \<le> k mod 7" and "k mod 7 < 7" by simp_all
  with that have "1 \<le> k mod 7" by linarith
  with \<open>k mod 7 < 7\<close> show ?thesis by (simp add: Suc_le_eq nat_less_iff)
qed

lemma curve31_index_add: "(nat (a mod 7) + nat (b mod 7)) mod 7 = nat ((a + b) mod 7)"
proof -
  have "(nat (a mod 7) + nat (b mod 7)) mod 7 = nat ((a mod 7 + b mod 7) mod 7)"
    by (simp add: nat_add_distrib nat_mod_distrib)
  also have "(a mod 7 + b mod 7) mod 7 = (a + b) mod 7" by (simp add: mod_add_eq)
  finally show ?thesis .
qed

lemma curve31_index_minus: "(7 - nat (a mod 7)) mod 7 = nat ((- a) mod 7)"
proof (cases "a mod 7 = 0")
  case True
  then have "(- a) mod 7 = 0" by (simp add: zmod_zminus1_eq_if)
  with True show ?thesis by simp
next
  case False
  have b: "0 \<le> a mod 7" "a mod 7 < 7" by simp_all
  from False have "(- a) mod 7 = 7 - a mod 7" by (simp add: zmod_zminus1_eq_if)
  moreover have "nat (7 - a mod 7) = 7 - nat (a mod 7)" by (simp add: nat_diff_distrib')
  moreover have "0 < nat (a mod 7)" using False b by simp
  ultimately show ?thesis by simp
qed

lemma curve31_add_point: "curve31_add (curve31_point a) (curve31_point b) = curve31_point (a + b)"
  using bspec [OF bspec [OF curve31_table_add curve31_index [of a]] curve31_index [of b]]
  by (simp only: curve31_point_def curve31_index_add)

lemma curve31_negate_point: "curve31_negate (curve31_point a) = curve31_point (- a)"
  using bspec [OF curve31_table_negate curve31_index [of a]]
  by (simp only: curve31_point_def curve31_index_minus)

lemma curve31_point_minus_index:
  assumes "a mod 7 \<noteq> 0"
  shows "curve31_point (- a) = curve31_table ! (7 - nat (a mod 7))"
proof -
  have "0 < nat (a mod 7)" using assms curve31_index_pos [OF assms] by simp
  then have "(7 - nat (a mod 7)) mod 7 = 7 - nat (a mod 7)" by simp
  then show ?thesis using curve31_index_minus [of a] by (simp add: curve31_point_def)
qed

lemma curve31_times_point: "curve31_times m (curve31_point k) = curve31_point (int m * k)"
proof (induction m)
  case 0
  show ?case by (simp add: curve31_point_def curve31_table_def)
next
  case (Suc m)
  have "int (Suc m) * k = int m * k + k" by (simp add: algebra_simps)
  with Suc show ?case by (simp add: curve31_add_point)
qed

lemma curve31_multiply_point: "0 \<le> a \<Longrightarrow> curve31_multiply a (curve31_point k) = curve31_point (a * k)"
  by (simp add: curve31_multiply_def curve31_times_point)

lemma curve31_G: "affine 6 7 = curve31_point 1"
  by (simp add: curve31_point_def curve31_table_def)

lemma kG_curve31: "0 \<le> k \<Longrightarrow> kG curve31 k = curve31_point k"
  using curve31_multiply_point [of k 1] by (simp add: kG_def curve31_sel curve31_G)

lemma curve31_reciprocal_mod: "(a * curve31_reciprocal a) mod 7 = 1" if "a mod 7 \<noteq> 0"
proof -
  from bspec [OF curve31_table_reciprocal curve31_residue_pos [OF that]]
  have "((a mod 7) * ((a mod 7) ^ 5 mod 7)) mod 7 = 1" by (simp add: curve31_reciprocal_def)
  moreover have "(a mod 7) ^ 5 mod 7 = a ^ 5 mod 7" by (rule power_mod)
  ultimately have "((a mod 7) * (a ^ 5 mod 7)) mod 7 = 1" by simp
  then show ?thesis by (simp add: curve31_reciprocal_def mod_mult_left_eq)
qed

lemma curve31_c_reciprocal: "\<forall>a. 0 \<le> a \<and> a mod T_n curve31 \<noteq> 0 \<longrightarrow>
        0 \<le> F_reciprocal curve31 a \<and> (a * F_reciprocal curve31 a) mod T_n curve31 = 1"
  using curve31_reciprocal_mod by (simp add: curve31_sel) (simp add: curve31_reciprocal_def)

lemma curve31_c_E_multiply:
  "\<forall>a k. 0 \<le> a \<and> 0 \<le> k \<longrightarrow> E_multiply curve31 a (kG curve31 k) = kG curve31 (a * k)"
  by (simp add: kG_curve31 curve31_multiply_point curve31_sel)

lemma curve31_c_E_add:
  "\<forall>a b. 0 \<le> a \<and> 0 \<le> b \<longrightarrow> E_add curve31 (kG curve31 a) (kG curve31 b) = kG curve31 (a + b)"
  by (simp add: kG_curve31 curve31_add_point curve31_sel)

lemma curve31_c_E_negate:
  "\<forall>a b. 0 \<le> a \<and> 0 \<le> b \<and> (a + b) mod T_n curve31 = 0 \<longrightarrow> E_negate curve31 (kG curve31 a) = kG curve31 b"
proof (intro allI impI)
  fix a b :: int
  assume A: "0 \<le> a \<and> 0 \<le> b \<and> (a + b) mod T_n curve31 = 0"
  then have "(a + b) mod 7 = 0" by (simp add: curve31_sel)
  then have "(- a) mod 7 = b mod 7" by (rule neg_mod_eq)
  then have "curve31_point (- a) = curve31_point b" by (rule curve31_point_cong)
  with A show "E_negate curve31 (kG curve31 a) = kG curve31 b"
    by (simp add: kG_curve31 curve31_sel curve31_negate_point)
qed

lemma curve31_c_cong:
  "\<forall>a b. 0 \<le> a \<and> 0 \<le> b \<and> a mod T_n curve31 = b mod T_n curve31 \<longrightarrow> kG curve31 a = kG curve31 b"
proof (intro allI impI)
  fix a b :: int
  assume A: "0 \<le> a \<and> 0 \<le> b \<and> a mod T_n curve31 = b mod T_n curve31"
  then have "a mod 7 = b mod 7" by (simp add: curve31_sel)
  then have "curve31_point a = curve31_point b" by (rule curve31_point_cong)
  with A show "kG curve31 a = kG curve31 b" by (simp add: kG_curve31)
qed

lemma curve31_c_identity: "\<forall>a. 0 \<le> a \<longrightarrow>
    (isIdentity (kG curve31 a) \<longleftrightarrow> a mod T_n curve31 = 0) \<and>
    (P_x (kG curve31 a) = None \<longleftrightarrow> a mod T_n curve31 = 0)"
proof (intro allI impI)
  fix a :: int
  assume a: "0 \<le> a"
  from bspec [OF curve31_table_identity curve31_residue [of a]]
  have "(P_x (curve31_point a) = None) = (a mod 7 = 0) \<and> isIdentity (curve31_point a) = (a mod 7 = 0)"
    by (simp add: curve31_point_mod)
  with a show "(isIdentity (kG curve31 a) \<longleftrightarrow> a mod T_n curve31 = 0) \<and>
      (P_x (kG curve31 a) = None \<longleftrightarrow> a mod T_n curve31 = 0)"
    by (simp add: kG_curve31 curve31_sel)
qed

lemma curve31_c_coords: "\<forall>a. 0 \<le> a \<and> a mod T_n curve31 \<noteq> 0 \<longrightarrow>
    (\<exists>X Y. P_x (kG curve31 a) = Some X \<and> P_y (kG curve31 a) = Some Y \<and> 0 \<le> X \<and> X < EF_p curve31 \<and> 0 \<le> Y)"
proof (intro allI impI)
  fix a :: int
  assume A: "0 \<le> a \<and> a mod T_n curve31 \<noteq> 0"
  then have "a mod 7 \<noteq> 0" by (simp add: curve31_sel)
  from bspec [OF curve31_table_coords curve31_residue_pos [OF this]]
  have "P_x (curve31_point a) \<noteq> None \<and> P_y (curve31_point a) \<noteq> None \<and>
     0 \<le> the (P_x (curve31_point a)) \<and> the (P_x (curve31_point a)) < 31 \<and>
     0 \<le> the (P_y (curve31_point a))" by (simp add: curve31_point_mod)
  with A show "\<exists>X Y. P_x (kG curve31 a) = Some X \<and> P_y (kG curve31 a) = Some Y \<and> 0 \<le> X \<and>
      X < EF_p curve31 \<and> 0 \<le> Y"
    by (auto simp: kG_curve31 curve31_sel)
qed

lemma curve31_point_minus_mod: "curve31_point (- (a mod 7)) = curve31_point (- a)"
  by (rule curve31_point_cong) (simp add: mod_minus_eq)

lemma curve31_c_parity: "\<forall>a Y Y'. 0 \<le> a \<and> a mod T_n curve31 \<noteq> 0 \<and> P_y (kG curve31 a) = Some Y \<and>
    P_y (E_negate curve31 (kG curve31 a)) = Some Y' \<longrightarrow>
    P_x (E_negate curve31 (kG curve31 a)) = P_x (kG curve31 a) \<and> Y' AND 1 \<noteq> Y AND 1"
proof (intro allI impI)
  fix a Y Y' :: int
  assume A: "0 \<le> a \<and> a mod T_n curve31 \<noteq> 0 \<and> P_y (kG curve31 a) = Some Y \<and>
    P_y (E_negate curve31 (kG curve31 a)) = Some Y'"
  then have a: "a mod 7 \<noteq> 0" and a0: "0 \<le> a" by (simp_all add: curve31_sel)
  define P where "P = curve31_point a"
  define N where "N = curve31_point (- a)"
  have k: "kG curve31 a = P" using a0 by (simp add: kG_curve31 P_def)
  have n: "E_negate curve31 (kG curve31 a) = N"
    using a0 by (simp add: kG_curve31 curve31_sel curve31_negate_point N_def)
  from bspec [OF curve31_table_parity curve31_residue_pos [OF a]]
  have "P_x N = P_x P \<and> the (P_y N) AND 1 \<noteq> the (P_y P) AND 1"
    by (simp add: curve31_point_mod curve31_point_minus_mod P_def N_def)
  moreover have "P_y P = Some Y" using A unfolding k by simp
  moreover have "P_y N = Some Y'" using A unfolding n by simp
  ultimately have R: "P_x N = P_x P \<and> Y' AND 1 \<noteq> Y AND 1" by simp
  show "P_x (E_negate curve31 (kG curve31 a)) = P_x (kG curve31 a) \<and> Y' AND 1 \<noteq> Y AND 1"
    by (simp only: n) (simp add: k R)
qed

lemma curve31_solve_x: "P_x R = P_x R' \<Longrightarrow> P_x R \<noteq> None \<Longrightarrow> curve31_solve R = curve31_solve R'"
  by (auto simp: curve31_solve_def)

lemma curve31_c_solve: "EF_p curve31 mod 4 = 3 \<longrightarrow>
    (\<forall>a R. 0 \<le> a \<and> a mod T_n curve31 \<noteq> 0 \<and> P_x R = P_x (kG curve31 a) \<longrightarrow>
       E_solve curve31 R = kG curve31 a \<or> E_solve curve31 R = E_negate curve31 (kG curve31 a))"
proof (intro allI impI)
  fix a :: int and R :: FinitePoint
  assume A: "0 \<le> a \<and> a mod T_n curve31 \<noteq> 0 \<and> P_x R = P_x (kG curve31 a)"
  then have a: "a mod 7 \<noteq> 0" and a0: "0 \<le> a" by (simp_all add: curve31_sel)
  have x: "P_x R = P_x (curve31_point a)" using A by (simp add: kG_curve31)
  from bspec [OF curve31_table_coords curve31_residue_pos [OF a]]
  have "P_x (curve31_point a) \<noteq> None" by (simp add: curve31_point_mod)
  with x have "curve31_solve R = curve31_solve (curve31_point a)" by (intro curve31_solve_x) simp_all
  moreover have "curve31_solve (curve31_point a) = curve31_point a \<or>
      curve31_solve (curve31_point a) = curve31_point (- a)"
    using bspec [OF curve31_table_solve curve31_index_pos [OF a]]
    unfolding curve31_point_minus_index [OF a] by (simp add: curve31_point_def)
  ultimately have "curve31_solve R = curve31_point a \<or> curve31_solve R = curve31_point (- a)" by simp
  with a0 show "E_solve curve31 R = kG curve31 a \<or> E_solve curve31 R = E_negate curve31 (kG curve31 a)"
    by (simp add: kG_curve31 curve31_sel curve31_negate_point)
qed

lemma curve31_c_add: "\<forall>a b. 0 \<le> a \<and> 0 \<le> b \<longrightarrow> F_add curve31 a b = (a + b) mod T_n curve31"
  by (simp add: curve31_sel)

lemma curve31_c_multiply: "\<forall>a b. 0 \<le> a \<and> 0 \<le> b \<longrightarrow> F_multiply curve31 a b = (a * b) mod T_n curve31"
  by (simp add: curve31_sel)

lemma curve31_c_divide: "\<forall>a b. 0 \<le> a \<and> 0 \<le> b \<and> b mod T_n curve31 \<noteq> 0 \<longrightarrow>
    F_divide curve31 a b = F_multiply curve31 a (F_reciprocal curve31 b)"
  by (simp add: curve31_sel)

lemma curve31_c_EF_add: "\<forall>a b. 0 \<le> a \<and> 0 \<le> b \<longrightarrow> EF_add curve31 a b = (a + b) mod EF_p curve31"
  by (simp add: curve31_sel)

lemma curve31_c_divide_point: "\<forall>s a. 0 \<le> s \<and> s mod T_n curve31 \<noteq> 0 \<and> 0 \<le> a \<longrightarrow>
    T_divide curve31 s (kG curve31 a) = E_multiply curve31 (F_reciprocal curve31 s) (kG curve31 a)"
  by (simp add: curve31_sel)

lemma curve31_arithmetic: "arithmetic_contract curve31"
  unfolding arithmetic_contract_def
  by (intro conjI)
    (simp add: curve31_sel, simp add: curve31_sel,
     rule curve31_c_add, rule curve31_c_multiply, rule curve31_c_reciprocal,
     rule curve31_c_divide, rule curve31_c_EF_add, rule curve31_c_E_multiply, rule curve31_c_E_add,
     rule curve31_c_E_negate, rule curve31_c_cong, rule curve31_c_identity, rule curve31_c_divide_point,
     rule curve31_c_coords, rule curve31_c_parity, rule curve31_c_solve)

lemma curve31_contract: "domain_contract curve31"
  unfolding domain_contract_def inverse_negates_def
proof (rule conjI, rule curve31_arithmetic)
  show "\<forall>a. 0 \<le> a \<and> a < T_n curve31 \<longrightarrow>
      0 \<le> F_inverse curve31 a \<and> (a + F_inverse curve31 a) mod T_n curve31 = 0"
    by (simp add: curve31_sel mod_add_right_eq)
qed

section \<open>The clauses of the contract\<close>

lemma arithmetic_n:
  "arithmetic_contract T \<Longrightarrow> 1 < T_n T"
  by (rule arithmetic_contract_def [THEN iffD1, THEN conjunct1, rule_format]) simp_all

lemma arithmetic_h:
  "arithmetic_contract T \<Longrightarrow> 0 \<le> T_h T"
  by (rule arithmetic_contract_def [THEN iffD1, THEN conjunct2, THEN conjunct1, rule_format]) simp_all

lemma arithmetic_F_add:
  "arithmetic_contract T \<Longrightarrow> 0 \<le> a \<Longrightarrow> 0 \<le> b \<Longrightarrow> F_add T a b = (a + b) mod T_n T"
  by (rule arithmetic_contract_def [THEN iffD1, THEN conjunct2, THEN conjunct2, THEN conjunct1, rule_format]) simp_all

lemma arithmetic_F_multiply:
  "arithmetic_contract T \<Longrightarrow> 0 \<le> a \<Longrightarrow> 0 \<le> b \<Longrightarrow> F_multiply T a b = (a * b) mod T_n T"
  by (rule arithmetic_contract_def [THEN iffD1, THEN conjunct2, THEN conjunct2, THEN conjunct2, THEN conjunct1, rule_format]) simp_all

lemma arithmetic_F_reciprocal:
  "arithmetic_contract T \<Longrightarrow> 0 \<le> a \<Longrightarrow> a mod T_n T \<noteq> 0 \<Longrightarrow> 0 \<le> F_reciprocal T a \<and> (a * F_reciprocal T a) mod T_n T = 1"
  by (rule arithmetic_contract_def [THEN iffD1, THEN conjunct2, THEN conjunct2, THEN conjunct2, THEN conjunct2, THEN conjunct1, rule_format]) simp_all

lemma arithmetic_F_divide:
  "arithmetic_contract T \<Longrightarrow> 0 \<le> a \<Longrightarrow> 0 \<le> b \<Longrightarrow> b mod T_n T \<noteq> 0 \<Longrightarrow> F_divide T a b = F_multiply T a (F_reciprocal T b)"
  by (rule arithmetic_contract_def [THEN iffD1, THEN conjunct2, THEN conjunct2, THEN conjunct2, THEN conjunct2, THEN conjunct2, THEN conjunct1, rule_format]) simp_all

lemma arithmetic_EF_add:
  "arithmetic_contract T \<Longrightarrow> 0 \<le> a \<Longrightarrow> 0 \<le> b \<Longrightarrow> EF_add T a b = (a + b) mod EF_p T"
  by (rule arithmetic_contract_def [THEN iffD1, THEN conjunct2, THEN conjunct2, THEN conjunct2, THEN conjunct2, THEN conjunct2, THEN conjunct2, THEN conjunct1, rule_format]) simp_all

lemma arithmetic_E_multiply:
  "arithmetic_contract T \<Longrightarrow> 0 \<le> a \<Longrightarrow> 0 \<le> k \<Longrightarrow> E_multiply T a (kG T k) = kG T (a * k)"
  by (rule arithmetic_contract_def [THEN iffD1, THEN conjunct2, THEN conjunct2, THEN conjunct2, THEN conjunct2, THEN conjunct2, THEN conjunct2, THEN conjunct2, THEN conjunct1, rule_format]) simp_all

lemma arithmetic_E_add:
  "arithmetic_contract T \<Longrightarrow> 0 \<le> a \<Longrightarrow> 0 \<le> b \<Longrightarrow> E_add T (kG T a) (kG T b) = kG T (a + b)"
  by (rule arithmetic_contract_def [THEN iffD1, THEN conjunct2, THEN conjunct2, THEN conjunct2, THEN conjunct2, THEN conjunct2, THEN conjunct2, THEN conjunct2, THEN conjunct2, THEN conjunct1, rule_format]) simp_all

lemma arithmetic_E_negate:
  "arithmetic_contract T \<Longrightarrow> 0 \<le> a \<Longrightarrow> 0 \<le> b \<Longrightarrow> (a + b) mod T_n T = 0 \<Longrightarrow> E_negate T (kG T a) = kG T b"
  by (rule arithmetic_contract_def [THEN iffD1, THEN conjunct2, THEN conjunct2, THEN conjunct2, THEN conjunct2, THEN conjunct2, THEN conjunct2, THEN conjunct2, THEN conjunct2, THEN conjunct2, THEN conjunct1, rule_format]) simp_all

lemma arithmetic_cong:
  "arithmetic_contract T \<Longrightarrow> 0 \<le> a \<Longrightarrow> 0 \<le> b \<Longrightarrow> a mod T_n T = b mod T_n T \<Longrightarrow> kG T a = kG T b"
  by (rule arithmetic_contract_def [THEN iffD1, THEN conjunct2, THEN conjunct2, THEN conjunct2, THEN conjunct2, THEN conjunct2, THEN conjunct2, THEN conjunct2, THEN conjunct2, THEN conjunct2, THEN conjunct2, THEN conjunct1, rule_format]) simp_all

lemma arithmetic_identity:
  "arithmetic_contract T \<Longrightarrow> 0 \<le> a \<Longrightarrow> (isIdentity (kG T a) \<longleftrightarrow> a mod T_n T = 0) \<and> (P_x (kG T a) = None \<longleftrightarrow> a mod T_n T = 0)"
  by (rule arithmetic_contract_def [THEN iffD1, THEN conjunct2, THEN conjunct2, THEN conjunct2, THEN conjunct2, THEN conjunct2, THEN conjunct2, THEN conjunct2, THEN conjunct2, THEN conjunct2, THEN conjunct2, THEN conjunct2, THEN conjunct1, rule_format]) simp_all

lemma arithmetic_T_divide:
  "arithmetic_contract T \<Longrightarrow> 0 \<le> s \<Longrightarrow> s mod T_n T \<noteq> 0 \<Longrightarrow> 0 \<le> a \<Longrightarrow> T_divide T s (kG T a) = E_multiply T (F_reciprocal T s) (kG T a)"
  by (rule arithmetic_contract_def [THEN iffD1, THEN conjunct2, THEN conjunct2, THEN conjunct2, THEN conjunct2, THEN conjunct2, THEN conjunct2, THEN conjunct2, THEN conjunct2, THEN conjunct2, THEN conjunct2, THEN conjunct2, THEN conjunct2, THEN conjunct1, rule_format]) simp_all

lemma arithmetic_coords:
  "arithmetic_contract T \<Longrightarrow> 0 \<le> a \<Longrightarrow> a mod T_n T \<noteq> 0 \<Longrightarrow> \<exists>X Y. P_x (kG T a) = Some X \<and> P_y (kG T a) = Some Y \<and> 0 \<le> X \<and> X < EF_p T \<and> 0 \<le> Y"
  by (rule arithmetic_contract_def [THEN iffD1, THEN conjunct2, THEN conjunct2, THEN conjunct2, THEN conjunct2, THEN conjunct2, THEN conjunct2, THEN conjunct2, THEN conjunct2, THEN conjunct2, THEN conjunct2, THEN conjunct2, THEN conjunct2, THEN conjunct2, THEN conjunct1, rule_format]) simp_all

lemma arithmetic_parity:
  "arithmetic_contract T \<Longrightarrow> 0 \<le> a \<Longrightarrow> a mod T_n T \<noteq> 0 \<Longrightarrow> P_y (kG T a) = Some Y \<Longrightarrow> P_y (E_negate T (kG T a)) = Some Y' \<Longrightarrow> P_x (E_negate T (kG T a)) = P_x (kG T a) \<and> Y' AND 1 \<noteq> Y AND 1"
  by (rule arithmetic_contract_def [THEN iffD1, THEN conjunct2, THEN conjunct2, THEN conjunct2, THEN conjunct2, THEN conjunct2, THEN conjunct2, THEN conjunct2, THEN conjunct2, THEN conjunct2, THEN conjunct2, THEN conjunct2, THEN conjunct2, THEN conjunct2, THEN conjunct2, THEN conjunct1, rule_format]) simp_all

lemma arithmetic_solve:
  "arithmetic_contract T \<Longrightarrow> EF_p T mod 4 = 3 \<Longrightarrow> 0 \<le> a \<Longrightarrow> a mod T_n T \<noteq> 0 \<Longrightarrow> P_x R = P_x (kG T a) \<Longrightarrow> E_solve T R = kG T a \<or> E_solve T R = E_negate T (kG T a)"
  by (rule arithmetic_contract_def [THEN iffD1, THEN conjunct2, THEN conjunct2, THEN conjunct2, THEN conjunct2, THEN conjunct2, THEN conjunct2, THEN conjunct2, THEN conjunct2, THEN conjunct2, THEN conjunct2, THEN conjunct2, THEN conjunct2, THEN conjunct2, THEN conjunct2, THEN conjunct2, rule_format]) simp_all

lemma domain_arithmetic: "domain_contract T \<Longrightarrow> arithmetic_contract T"
  by (rule domain_contract_def [THEN iffD1, THEN conjunct1])

lemma contract_n:
  "domain_contract T \<Longrightarrow> 1 < T_n T"
  by (rule arithmetic_n [OF domain_arithmetic])

lemma contract_h:
  "domain_contract T \<Longrightarrow> 0 \<le> T_h T"
  by (rule arithmetic_h [OF domain_arithmetic])

lemma contract_F_add:
  "domain_contract T \<Longrightarrow> 0 \<le> a \<Longrightarrow> 0 \<le> b \<Longrightarrow> F_add T a b = (a + b) mod T_n T"
  by (rule arithmetic_F_add [OF domain_arithmetic])

lemma contract_F_multiply:
  "domain_contract T \<Longrightarrow> 0 \<le> a \<Longrightarrow> 0 \<le> b \<Longrightarrow> F_multiply T a b = (a * b) mod T_n T"
  by (rule arithmetic_F_multiply [OF domain_arithmetic])

lemma contract_F_reciprocal:
  "domain_contract T \<Longrightarrow> 0 \<le> a \<Longrightarrow> a mod T_n T \<noteq> 0 \<Longrightarrow> 0 \<le> F_reciprocal T a \<and> (a * F_reciprocal T a) mod T_n T = 1"
  by (rule arithmetic_F_reciprocal [OF domain_arithmetic])

lemma contract_F_divide:
  "domain_contract T \<Longrightarrow> 0 \<le> a \<Longrightarrow> 0 \<le> b \<Longrightarrow> b mod T_n T \<noteq> 0 \<Longrightarrow> F_divide T a b = F_multiply T a (F_reciprocal T b)"
  by (rule arithmetic_F_divide [OF domain_arithmetic])

lemma contract_EF_add:
  "domain_contract T \<Longrightarrow> 0 \<le> a \<Longrightarrow> 0 \<le> b \<Longrightarrow> EF_add T a b = (a + b) mod EF_p T"
  by (rule arithmetic_EF_add [OF domain_arithmetic])

lemma contract_E_multiply:
  "domain_contract T \<Longrightarrow> 0 \<le> a \<Longrightarrow> 0 \<le> k \<Longrightarrow> E_multiply T a (kG T k) = kG T (a * k)"
  by (rule arithmetic_E_multiply [OF domain_arithmetic])

lemma contract_E_add:
  "domain_contract T \<Longrightarrow> 0 \<le> a \<Longrightarrow> 0 \<le> b \<Longrightarrow> E_add T (kG T a) (kG T b) = kG T (a + b)"
  by (rule arithmetic_E_add [OF domain_arithmetic])

lemma contract_E_negate:
  "domain_contract T \<Longrightarrow> 0 \<le> a \<Longrightarrow> 0 \<le> b \<Longrightarrow> (a + b) mod T_n T = 0 \<Longrightarrow> E_negate T (kG T a) = kG T b"
  by (rule arithmetic_E_negate [OF domain_arithmetic])

lemma contract_cong:
  "domain_contract T \<Longrightarrow> 0 \<le> a \<Longrightarrow> 0 \<le> b \<Longrightarrow> a mod T_n T = b mod T_n T \<Longrightarrow> kG T a = kG T b"
  by (rule arithmetic_cong [OF domain_arithmetic])

lemma contract_identity:
  "domain_contract T \<Longrightarrow> 0 \<le> a \<Longrightarrow> (isIdentity (kG T a) \<longleftrightarrow> a mod T_n T = 0) \<and> (P_x (kG T a) = None \<longleftrightarrow> a mod T_n T = 0)"
  by (rule arithmetic_identity [OF domain_arithmetic])

lemma contract_T_divide:
  "domain_contract T \<Longrightarrow> 0 \<le> s \<Longrightarrow> s mod T_n T \<noteq> 0 \<Longrightarrow> 0 \<le> a \<Longrightarrow> T_divide T s (kG T a) = E_multiply T (F_reciprocal T s) (kG T a)"
  by (rule arithmetic_T_divide [OF domain_arithmetic])

lemma contract_coords:
  "domain_contract T \<Longrightarrow> 0 \<le> a \<Longrightarrow> a mod T_n T \<noteq> 0 \<Longrightarrow> \<exists>X Y. P_x (kG T a) = Some X \<and> P_y (kG T a) = Some Y \<and> 0 \<le> X \<and> X < EF_p T \<and> 0 \<le> Y"
  by (rule arithmetic_coords [OF domain_arithmetic])

lemma contract_parity:
  "domain_contract T \<Longrightarrow> 0 \<le> a \<Longrightarrow> a mod T_n T \<noteq> 0 \<Longrightarrow> P_y (kG T a) = Some Y \<Longrightarrow> P_y (E_negate T (kG T a)) = Some Y' \<Longrightarrow> P_x (E_negate T (kG T a)) = P_x (kG T a) \<and> Y' AND 1 \<noteq> Y AND 1"
  by (rule arithmetic_parity [OF domain_arithmetic])

lemma contract_solve:
  "domain_contract T \<Longrightarrow> EF_p T mod 4 = 3 \<Longrightarrow> 0 \<le> a \<Longrightarrow> a mod T_n T \<noteq> 0 \<Longrightarrow> P_x R = P_x (kG T a) \<Longrightarrow> E_solve T R = kG T a \<or> E_solve T R = E_negate T (kG T a)"
  by (rule arithmetic_solve [OF domain_arithmetic])

lemma contract_F_inverse:
  "domain_contract T \<Longrightarrow> 0 \<le> a \<Longrightarrow> a < T_n T \<Longrightarrow> 0 \<le> F_inverse T a \<and> (a + F_inverse T a) mod T_n T = 0"
  using domain_contract_def [THEN iffD1, THEN conjunct2, rule_format, of T a]
  by (simp add: inverse_negates_def)

section \<open>What the signer returns\<close>

lemma uint8ArrayToBigint_LE_nonneg: "0 \<le> uint8ArrayToBigint_LE a B"
  by (simp add: uint8ArrayToBigint_LE_def fold_upt_sum sum_nonneg)

lemma sign_loop_Some:
  "sign_loop T shape d M e L N zero rnd fuel t rounds = Some res \<Longrightarrow>
   \<exists>K t0 t' k r s. draw_nonce rnd L N zero t0 fuel = Some (K, t') \<and>
     k = uint8ArrayToBigint_LE K (Some L) \<and> signing_equation T d e k r s \<and>
     res = shape T d M e r s (kG T k)"
proof (induction rounds arbitrary: t)
  case 0
  then show ?case by simp
next
  case (Suc rounds)
  show ?case
  proof (cases "draw_nonce rnd L N zero t fuel")
    case None
    with Suc.prems show ?thesis by simp
  next
    case (Some Kt)
    obtain K t' where Kt: "Kt = (K, t')" by (cases Kt)
    define k where "k = uint8ArrayToBigint_LE K (Some L)"
    define R where "R = E_multiply T k (T_G T)"
    have k0: "0 \<le> k" by (simp add: k_def uint8ArrayToBigint_LE_nonneg)
    show ?thesis
    proof (cases "P_x R")
      case None
      with Suc.prems Some Kt have "sign_loop T shape d M e L N zero rnd fuel t' rounds = Some res"
        by (simp add: Let_def k_def R_def)
      then show ?thesis by (rule Suc.IH)
    next
      case (Some X)
      define r where "r = X smod T_n T"
      define s where "s = F_divide T (F_add T e (F_multiply T r d)) k"
      show ?thesis
      proof (cases "r = 0 \<or> s = 0")
        case True
        with Suc.prems \<open>draw_nonce rnd L N zero t fuel = Some Kt\<close> Kt Some
        have "sign_loop T shape d M e L N zero rnd fuel t' rounds = Some res"
          by (auto simp: Let_def k_def R_def r_def s_def split: if_splits)
        then show ?thesis by (rule Suc.IH)
      next
        case False
        with Suc.prems \<open>draw_nonce rnd L N zero t fuel = Some Kt\<close> Kt Some
        have res: "res = shape T d M e r s R"
          by (auto simp: Let_def k_def R_def r_def s_def)
        have "signing_equation T d e k r s"
          using False Some k0 by (simp add: signing_equation_def kG_def R_def r_def s_def)
        with res \<open>draw_nonce rnd L N zero t fuel = Some Kt\<close> Kt show ?thesis
          unfolding R_def kG_def k_def by blast
      qed
    qed
  qed
qed

lemma smod_nonneg: "0 \<le> X \<Longrightarrow> 0 < n \<Longrightarrow> X smod n = X mod (n::int)"
  by (simp add: signed_modulo_int_def sgn_if)

lemma mod_inverse_cancel:
  fixes k ki s si w n :: int
  assumes "(k * ki) mod n = 1" and "(s * si) mod n = 1" and "s = (w * ki) mod n"
  shows "(si * w) mod n = k mod n"
proof -
  have "(si * w) mod n = (si * w * ((k * ki) mod n)) mod n" using assms(1) by simp
  also have "\<dots> = (si * w * (k * ki)) mod n" by (simp only: mod_mult_right_eq)
  also have "\<dots> = (si * (w * ki) * k) mod n" by (simp add: ac_simps)
  also have "\<dots> = (si * ((w * ki) mod n) * k) mod n"
    by (metis mod_mult_left_eq mod_mult_right_eq)
  also have "\<dots> = (si * s * k) mod n" by (simp only: assms(3))
  also have "\<dots> = ((s * si) * k) mod n" by (simp add: ac_simps)
  also have "\<dots> = ((s * si) mod n * k) mod n" by (simp only: mod_mult_left_eq)
  also have "\<dots> = k mod n" using assms(2) by simp
  finally show ?thesis .
qed

lemma sign_facts:
  assumes c: "domain_contract T" and d: "0 \<le> d" and e: "0 \<le> e"
    and se: "signing_equation T d e k r s"
  shows "0 < r \<and> r < T_n T \<and> 0 < s \<and> s < T_n T \<and> 0 \<le> k \<and> k mod T_n T \<noteq> 0 \<and>
         s = ((e + r * d) * F_reciprocal T k) mod T_n T \<and>
         (\<exists>X. P_x (kG T k) = Some X \<and> 0 \<le> X \<and> X < EF_p T \<and> r = X mod T_n T)"
proof -
  from se obtain X where k0: "0 \<le> k" and X: "P_x (kG T k) = Some X" and r: "r = X smod T_n T"
    and r0: "r \<noteq> 0" and s: "s = F_divide T (F_add T e (F_multiply T r d)) k" and s0: "s \<noteq> 0"
    by (auto simp: signing_equation_def)
  have n: "1 < T_n T" using c by (rule contract_n)
  have kn: "k mod T_n T \<noteq> 0" using contract_identity [OF c k0] X by simp
  from contract_coords [OF c k0 kn] X have X0: "0 \<le> X" and Xp: "X < EF_p T" by auto
  have r': "r = X mod T_n T" using r X0 n by (simp add: smod_nonneg)
  have "0 \<le> X mod T_n T" and "X mod T_n T < T_n T" using n by simp_all
  with r' r0 have rpos: "0 < r" and rlt: "r < T_n T" by simp_all
  have "F_multiply T r d = (r * d) mod T_n T" using contract_F_multiply [OF c] rpos d by simp
  moreover have "F_add T e ((r * d) mod T_n T) = (e + (r * d) mod T_n T) mod T_n T"
    using contract_F_add [OF c e] n by simp
  ultimately have v68: "F_add T e (F_multiply T r d) = (e + r * d) mod T_n T"
    by (simp add: mod_add_right_eq)
  have v68_0: "0 \<le> (e + r * d) mod T_n T" using n by simp
  from contract_F_reciprocal [OF c k0 kn] have ki0: "0 \<le> F_reciprocal T k" by simp
  have "s = F_multiply T ((e + r * d) mod T_n T) (F_reciprocal T k)"
    using contract_F_divide [OF c v68_0 k0 kn] s v68 by simp
  also have "\<dots> = ((e + r * d) mod T_n T * F_reciprocal T k) mod T_n T"
    using contract_F_multiply [OF c v68_0 ki0] .
  also have "\<dots> = ((e + r * d) * F_reciprocal T k) mod T_n T" by (simp only: mod_mult_left_eq)
  finally have s': "s = ((e + r * d) * F_reciprocal T k) mod T_n T" .
  then have "0 \<le> s" and "s < T_n T" using n by simp_all
  with s0 have "0 < s" by simp
  with rpos rlt \<open>s < T_n T\<close> k0 kn s' X X0 Xp r' show ?thesis by blast
qed

lemma verify_point:
  assumes c: "domain_contract T" and d: "0 \<le> d" and e: "0 \<le> e"
    and se: "signing_equation T d e k r s"
  shows "T_divide T s (E_add T (E_multiply T e (T_G T)) (E_multiply T r (E_multiply T d (T_G T)))) = kG T k"
proof -
  from sign_facts [OF c d e se]
  have r: "0 < r" and s: "0 < s" "s < T_n T" and k0: "0 \<le> k" and kn: "k mod T_n T \<noteq> 0"
    and s': "s = ((e + r * d) * F_reciprocal T k) mod T_n T" by simp_all
  define w where "w = e + r * d"
  have w0: "0 \<le> w" using e r d by (simp add: w_def)
  have sn: "s mod T_n T \<noteq> 0" using s by simp
  from contract_F_reciprocal [OF c k0 kn]
  have ki: "(k * F_reciprocal T k) mod T_n T = 1" by simp
  from contract_F_reciprocal [OF c _ sn] s
  have si0: "0 \<le> F_reciprocal T s" and si: "(s * F_reciprocal T s) mod T_n T = 1" by simp_all
  have "E_add T (E_multiply T e (T_G T)) (E_multiply T r (E_multiply T d (T_G T)))
      = E_add T (kG T e) (E_multiply T r (kG T d))" by (simp add: kG_def)
  also have "\<dots> = E_add T (kG T e) (kG T (r * d))"
    using contract_E_multiply [OF c _ d, of r] r by simp
  also have "\<dots> = kG T w"
    unfolding w_def using r d e by (intro contract_E_add [OF c]) simp_all
  finally have "T_divide T s (E_add T (E_multiply T e (T_G T)) (E_multiply T r (E_multiply T d (T_G T))))
      = T_divide T s (kG T w)" by simp
  also have "\<dots> = E_multiply T (F_reciprocal T s) (kG T w)"
    using s sn w0 by (intro contract_T_divide [OF c]) simp_all
  also have "\<dots> = kG T (F_reciprocal T s * w)"
    using contract_E_multiply [OF c si0 w0] .
  also have "\<dots> = kG T k"
  proof (rule contract_cong [OF c])
    show "0 \<le> F_reciprocal T s * w" using si0 w0 by simp
    show "0 \<le> k" by (rule k0)
    show "(F_reciprocal T s * w) mod T_n T = k mod T_n T"
      using ki si s' unfolding w_def by (rule mod_inverse_cancel)
  qed
  finally show ?thesis .
qed

lemma Ecdsa_sign_loop_Some:
  "Ecdsa_sign_loop T d e L N zero rnd fuel t rounds = Some S \<Longrightarrow>
   \<exists>K t0 t' k r s. Ecdsa_draw_nonce rnd L N zero t0 fuel = Some (K, t') \<and>
     k = uint8ArrayToBigint_LE K (Some L) \<and> signing_equation T d e k r s \<and>
     S = \<lparr>sig_r = r, sig_s = s\<rparr>"
proof (induction rounds arbitrary: t)
  case 0
  then show ?case by simp
next
  case (Suc rounds)
  show ?case
  proof (cases "Ecdsa_draw_nonce rnd L N zero t fuel")
    case None
    with Suc.prems show ?thesis by simp
  next
    case (Some Kt)
    obtain K t' where Kt: "Kt = (K, t')" by (cases Kt)
    define k where "k = uint8ArrayToBigint_LE K (Some L)"
    define R where "R = E_multiply T k (T_G T)"
    have k0: "0 \<le> k" by (simp add: k_def uint8ArrayToBigint_LE_nonneg)
    show ?thesis
    proof (cases "P_x R")
      case None
      with Suc.prems Some Kt have "Ecdsa_sign_loop T d e L N zero rnd fuel t' rounds = Some S"
        by (simp add: Let_def k_def R_def)
      then show ?thesis by (rule Suc.IH)
    next
      case (Some X)
      define r where "r = X smod T_n T"
      define s where "s = F_divide T (F_add T e (F_multiply T r d)) k"
      show ?thesis
      proof (cases "r = 0 \<or> s = 0")
        case True
        with Suc.prems \<open>Ecdsa_draw_nonce rnd L N zero t fuel = Some Kt\<close> Kt Some
        have "Ecdsa_sign_loop T d e L N zero rnd fuel t' rounds = Some S"
          by (auto simp: Let_def k_def R_def r_def s_def split: if_splits)
        then show ?thesis by (rule Suc.IH)
      next
        case False
        with Suc.prems \<open>Ecdsa_draw_nonce rnd L N zero t fuel = Some Kt\<close> Kt Some
        have res: "S = \<lparr>sig_r = r, sig_s = s\<rparr>"
          by (auto simp: Let_def k_def R_def r_def s_def)
        have "signing_equation T d e k r s"
          using False Some k0 by (simp add: signing_equation_def kG_def R_def r_def s_def)
        with res \<open>Ecdsa_draw_nonce rnd L N zero t fuel = Some Kt\<close> Kt show ?thesis
          unfolding k_def by blast
      qed
    qed
  qed
qed

lemma fn_6dcb8a_Some:
  assumes "fn_6dcb8a T ef shape rnd fuel d M = Some res"
  shows "\<exists>k r s. signing_equation T d (ef M) k r s \<and> res = shape T d M (ef M) r s (kG T k)"
  using sign_loop_Some [of T shape d M "ef M" "nByteLength (T_n T)"
      "bigintToUint8Array_LE (T_n T) (nByteLength (T_n T))" "replicate (nByteLength (T_n T)) 0"
      rnd fuel 0 fuel res] assms
  by (auto simp: fn_6dcb8a_def Let_def)

lemma Ecdsa_sign_Some:
  assumes "Ecdsa_sign T H d hashlen rnd fuel = Some S"
  shows "\<exists>k r s. signing_equation T d (uint8ArrayToBigint_LE H (Some hashlen)) k r s \<and>
     S = \<lparr>sig_r = r, sig_s = s\<rparr>"
  using Ecdsa_sign_loop_Some [of T d "uint8ArrayToBigint_LE H (Some hashlen)" hashlen
      "bigintToUint8Array_LE (T_n T) hashlen" "replicate hashlen 0" rnd fuel 0 fuel S] assms
  by (auto simp: Ecdsa_sign_def Let_def)

lemma Ecdsa_verify_signed:
  assumes c: "domain_contract T" and d: "0 \<le> d"
    and se: "signing_equation T d (uint8ArrayToBigint_LE H (Some hashlen)) k r s"
  shows "Ecdsa_verify (E_multiply T d (T_G T)) T \<lparr>sig_r = r, sig_s = s\<rparr> H hashlen = Inr True"
proof -
  have e: "0 \<le> uint8ArrayToBigint_LE H (Some hashlen)" by (rule uint8ArrayToBigint_LE_nonneg)
  from sign_facts [OF c d e se] obtain X
    where r: "0 < r" "r < T_n T" and s: "0 < s" "s < T_n T" and k0: "0 \<le> k"
      and kn: "k mod T_n T \<noteq> 0" and X: "P_x (kG T k) = Some X" "0 \<le> X" "r = X mod T_n T"
    by blast
  have n: "1 < T_n T" using c by (rule contract_n)
  have R: "T_divide T s (E_add T (E_multiply T (uint8ArrayToBigint_LE H (Some hashlen)) (T_G T))
      (E_multiply T r (E_multiply T d (T_G T)))) = kG T k"
    using c d e se by (rule verify_point)
  have id: "\<not> isIdentity (kG T k)" using contract_identity [OF c k0] kn by simp
  have "X smod T_n T = r" using X n by (simp add: smod_nonneg)
  with r s n id X(1) show ?thesis by (simp add: Ecdsa_verify_def Let_def R)
qed

lemma toy_sign_run:
  "fn_6dcb8a toy (\<lambda>M. 9) fn_f34c7e (\<lambda>t i. 3) 1 5 [] = Some (Inr \<lparr>sig_r = 8, sig_s = 12\<rparr>)"
  by code_simp

lemma toy_Ecdsa_sign_run:
  "Ecdsa_sign toy [9] 5 1 (\<lambda>t i. 3) 1 = Some \<lparr>sig_r = 8, sig_s = 12\<rparr>"
  by code_simp

section \<open>Verifying what the signer returns\<close>

lemma negate_facts:
  assumes c: "domain_contract T" and k0: "0 \<le> k" and kn: "k mod T_n T \<noteq> 0"
    and b0: "0 \<le> b" and kb: "(k + b) mod T_n T = 0"
  shows "E_negate T (kG T k) = kG T b \<and> b mod T_n T \<noteq> 0 \<and> P_x (kG T b) = P_x (kG T k) \<and>
         \<not> isIdentity (kG T b) \<and>
         (\<forall>Y Y'. P_y (kG T k) = Some Y \<and> P_y (kG T b) = Some Y' \<longrightarrow> Y' AND 1 \<noteq> Y AND 1)"
proof -
  have neg: "E_negate T (kG T k) = kG T b" using c k0 b0 kb by (rule contract_E_negate)
  have bn: "b mod T_n T \<noteq> 0"
  proof
    assume "b mod T_n T = 0"
    then have "(k + b) mod T_n T = k mod T_n T" by (metis add.right_neutral mod_add_right_eq)
    with kb kn show False by simp
  qed
  from contract_coords [OF c k0 kn] obtain Y where Y: "P_y (kG T k) = Some Y" by blast
  from contract_coords [OF c b0 bn] obtain Y' where Y': "P_y (kG T b) = Some Y'" by blast
  from contract_parity [OF c k0 kn Y] Y' neg
  have x: "P_x (kG T b) = P_x (kG T k)" and par: "Y' AND 1 \<noteq> Y AND 1" by simp_all
  have id: "\<not> isIdentity (kG T b)" using contract_identity [OF c b0] bn by simp
  from neg bn x id par Y Y' show ?thesis by simp
qed

lemma mod_complement: "(n - a mod n + a) mod n = 0" for a n :: int
proof -
  have "(n - a mod n + a) mod n = ((n - a mod n) mod n + a mod n) mod n"
    by (simp only: mod_add_eq)
  also have "(n - a mod n) mod n = (n - a) mod n" by (simp only: mod_diff_right_eq)
  also have "((n - a) mod n + a mod n) mod n = (n - a + a) mod n" by (simp only: mod_add_eq)
  also have "\<dots> = 0" by simp
  finally show ?thesis .
qed

lemma mod_inverse_cancel_neg:
  fixes k ki s' si' w n :: int
  assumes "(k * ki) mod n = 1" and "(s' * si') mod n = 1" and "(s' + w * ki) mod n = 0"
  shows "(k + si' * w) mod n = 0"
proof -
  have "(k + si' * w) mod n = ((s' * si') mod n * k + si' * w * ((k * ki) mod n)) mod n"
    using assms(1,2) by simp
  also have "\<dots> = ((s' * si') * k + si' * w * (k * ki)) mod n"
    by (rule mod_add_cong) (simp_all only: mod_mult_left_eq mod_mult_right_eq)
  also have "\<dots> = (si' * k * (s' + w * ki)) mod n"
    by (simp add: algebra_simps)
  also have "\<dots> = (si' * k * ((s' + w * ki) mod n)) mod n"
    by (simp only: mod_mult_right_eq)
  also have "\<dots> = 0" using assms(3) by simp
  finally show ?thesis .
qed

lemma verify_point_low_s:
  assumes c: "domain_contract T" and d: "0 \<le> d" and e: "0 \<le> e"
    and se: "signing_equation T d e k r s"
  shows "\<exists>b. 0 \<le> b \<and> (k + b) mod T_n T = 0 \<and>
    T_divide T (T_n T - s) (E_add T (E_multiply T e (T_G T)) (E_multiply T r (E_multiply T d (T_G T)))) = kG T b"
proof -
  from sign_facts [OF c d e se]
  have r: "0 < r" and s: "0 < s" "s < T_n T" and k0: "0 \<le> k" and kn: "k mod T_n T \<noteq> 0"
    and s': "s = ((e + r * d) * F_reciprocal T k) mod T_n T" by simp_all
  define w where "w = e + r * d"
  define s2 where "s2 = T_n T - s"
  have w0: "0 \<le> w" using e r d by (simp add: w_def)
  have s2: "0 < s2" "s2 < T_n T" using s by (simp_all add: s2_def)
  then have sn: "s2 mod T_n T \<noteq> 0" by simp
  from contract_F_reciprocal [OF c k0 kn]
  have ki: "(k * F_reciprocal T k) mod T_n T = 1" by simp
  from contract_F_reciprocal [OF c _ sn] s2
  have si0: "0 \<le> F_reciprocal T s2" and si: "(s2 * F_reciprocal T s2) mod T_n T = 1" by simp_all
  have "(s2 + w * F_reciprocal T k) mod T_n T = (T_n T - s + w * F_reciprocal T k) mod T_n T"
    by (simp add: s2_def)
  also have "\<dots> = (T_n T - (w * F_reciprocal T k) mod T_n T + w * F_reciprocal T k) mod T_n T"
    using s' by (simp add: w_def)
  also have "\<dots> = 0" by (rule mod_complement)
  finally have z: "(s2 + w * F_reciprocal T k) mod T_n T = 0" .
  have "E_add T (E_multiply T e (T_G T)) (E_multiply T r (E_multiply T d (T_G T)))
      = E_add T (kG T e) (E_multiply T r (kG T d))" by (simp add: kG_def)
  also have "\<dots> = E_add T (kG T e) (kG T (r * d))"
    using contract_E_multiply [OF c _ d, of r] r by simp
  also have "\<dots> = kG T w"
    unfolding w_def using r d e by (intro contract_E_add [OF c]) simp_all
  finally have "T_divide T s2 (E_add T (E_multiply T e (T_G T)) (E_multiply T r (E_multiply T d (T_G T))))
      = T_divide T s2 (kG T w)" by simp
  also have "\<dots> = E_multiply T (F_reciprocal T s2) (kG T w)"
    using s2 sn w0 by (intro contract_T_divide [OF c]) simp_all
  also have "\<dots> = kG T (F_reciprocal T s2 * w)"
    using contract_E_multiply [OF c si0 w0] .
  finally have A: "T_divide T (T_n T - s) (E_add T (E_multiply T e (T_G T)) (E_multiply T r (E_multiply T d (T_G T))))
      = kG T (F_reciprocal T s2 * w)" by (simp add: s2_def)
  have B: "0 \<le> F_reciprocal T s2 * w" using si0 w0 by simp
  have C: "(k + F_reciprocal T s2 * w) mod T_n T = 0"
    using ki si z by (rule mod_inverse_cancel_neg)
  show ?thesis
    by (rule exI [of _ "F_reciprocal T s2 * w"]) (simp only: A B C simp_thms)
qed

lemma low_s_cases: "fst (low_s n (s, v)) = s \<or> fst (low_s n (s, v)) = n - s"
  by (simp add: low_s_def)

lemma fn_033399_Inr:
  assumes "fn_033399 r s R n = Inr S"
  shows "sig_r S = r \<and> (sig_s S = s \<or> sig_s S = n - s)"
  using assms
  by (auto simp: fn_033399_def low_s_def Let_def split: option.splits if_splits)

lemma verify_signed_scheme:
  assumes c: "domain_contract T" and d: "0 \<le> d" and e: "0 \<le> ef M"
    and se: "signing_equation T d (ef M) k r s"
    and S: "sig_r S = r" "sig_s S = s \<or> sig_s S = T_n T - s"
  shows "verify T ef (E_multiply T d (T_G T)) S M = Inr True"
proof -
  from sign_facts [OF c d e se] obtain X
    where r: "0 < r" "r < T_n T" and s: "0 < s" "s < T_n T" and k0: "0 \<le> k"
      and kn: "k mod T_n T \<noteq> 0" and X: "P_x (kG T k) = Some X" "0 \<le> X" "r = X mod T_n T"
    by blast
  have n: "1 < T_n T" using c by (rule contract_n)
  have Xr: "X smod T_n T = r" using X n by (simp add: smod_nonneg)
  from S(2) show ?thesis
  proof
    assume ss: "sig_s S = s"
    have R: "T_divide T s (E_add T (E_multiply T (ef M) (T_G T)) (E_multiply T r (E_multiply T d (T_G T)))) = kG T k"
      using c d e se by (rule verify_point)
    have id: "\<not> isIdentity (kG T k)" using contract_identity [OF c k0] kn by simp
    from r s n id X(1) Xr show ?thesis by (simp add: verify_def Let_def R S(1) ss)
  next
    assume ss: "sig_s S = T_n T - s"
    from verify_point_low_s [OF c d e se] obtain b where b: "0 \<le> b" "(k + b) mod T_n T = 0"
      and R: "T_divide T (T_n T - s) (E_add T (E_multiply T (ef M) (T_G T)) (E_multiply T r (E_multiply T d (T_G T)))) = kG T b"
      by (elim exE conjE)
    from negate_facts [OF c k0 kn b]
    have x: "P_x (kG T b) = P_x (kG T k)" and id: "\<not> isIdentity (kG T b)" by simp_all
    from r s n id X(1) Xr x show ?thesis by (simp add: verify_def Let_def R S(1) ss)
  qed
qed

lemma toy_sign_recoverable_run:
  "fn_6dcb8a toy (\<lambda>M. 9) fn_30ecde (\<lambda>t i. 3) 1 5 [] = Some (Inr \<lparr>sig_r = 8, sig_s = 1, sig_v = 0\<rparr>)"
  by code_simp

section \<open>The low-s step\<close>

lemma xor_one_flips: "(v XOR 1) AND 1 \<noteq> v AND (1::int)"
  by (simp add: and_one_eq xor_one_eq) presburger

lemma low_s_bound: "2 * fst (low_s n (s, v)) \<le> n"
proof (cases "s > drop_bit 1 n")
  case True
  then have "n div 2 < s" by (simp add: drop_bit_eq_div)
  then have "n \<le> 2 * s" by linarith
  with True show ?thesis by (simp add: low_s_def)
next
  case False
  then have "s \<le> n div 2" by (simp add: drop_bit_eq_div)
  then have "2 * s \<le> n" by linarith
  with False show ?thesis by (simp add: low_s_def)
qed

lemma low_s_fixed: "2 * s \<le> n \<Longrightarrow> low_s n (s, v) = (s, v)"
proof -
  assume "2 * s \<le> n"
  then have "s \<le> n div 2" by linarith
  then show ?thesis by (simp add: low_s_def drop_bit_eq_div)
qed

lemma low_s_idem: "low_s n (low_s n (s, v)) = low_s n (s, v)"
  using low_s_fixed [OF low_s_bound [of n s v], of "snd (low_s n (s, v))"] by simp

lemma fn_033399_low: "fn_033399 r s R n = Inr S \<Longrightarrow>
    2 * sig_s S \<le> n \<and> low_s n (sig_s S, sig_v S) = (sig_s S, sig_v S)"
  using low_s_bound low_s_idem
  by (auto simp: fn_033399_def Let_def split: option.splits if_splits)

section \<open>The nonce loop\<close>

text \<open>
  \<^verbatim>\<open>compare\<close> on two arrays of one length is the sign of the difference of the integers
  they encode, so the loop of the generic form accepts exactly the draws that decode to an
  integer in \<open>[1, n)\<close>.
\<close>

lemma decode_sum:
  "length a = L \<Longrightarrow> uint8ArrayToBigint_LE a (Some L) = (\<Sum>j<L. uint (a ! j) * 2 ^ (8 * j))"
  by (simp add: uint8ArrayToBigint_LE_def fold_upt_sum push_bit_eq_mult mult.commute)

lemma psum_bounds:
  fixes a :: Uint8Array
  shows "0 \<le> (\<Sum>j<i. uint (a ! j) * 2 ^ (8 * j)) \<and> (\<Sum>j<i. uint (a ! j) * 2 ^ (8 * j)) < 2 ^ (8 * i)"
proof (induction i)
  case 0
  show ?case by simp
next
  case (Suc i)
  define P :: int where "P = 2 ^ (8 * i)"
  define x where "x = uint (a ! i) * P"
  define A where "A = (\<Sum>j<i. uint (a ! j) * 2 ^ (8 * j))"
  have u: "0 \<le> uint (a ! i)" "uint (a ! i) \<le> 255"
    using uint_lt2p [of "a ! i"] by simp_all
  have P: "0 < P" by (simp add: P_def)
  have "uint (a ! i) * P \<le> 255 * P"
    using u P by (intro mult_right_mono) simp_all
  then have x1: "x \<le> 255 * P" by (simp add: x_def)
  have x0: "0 \<le> x" using u P by (simp add: x_def)
  have A: "0 \<le> A" "A < P" using Suc by (simp_all add: A_def P_def)
  have "(\<Sum>j<Suc i. uint (a ! j) * 2 ^ (8 * j)) = A + x" by (simp add: A_def x_def P_def)
  moreover have "(2::int) ^ (8 * Suc i) = 256 * P" by (simp add: power_add P_def)
  moreover have "0 \<le> A + x \<and> A + x < 256 * P" using A x0 x1 by linarith
  ultimately show ?case by simp
qed

lemma compare_from_sgn:
  "i \<le> length b \<Longrightarrow>
   compare_from a b i = sgn ((\<Sum>j<i. uint (a ! j) * 2 ^ (8 * j)) - (\<Sum>j<i. uint (b ! j) * 2 ^ (8 * j)))"
proof (induction i)
  case 0
  show ?case by simp
next
  case (Suc i)
  define P :: int where "P = 2 ^ (8 * i)"
  define A where "A = (\<Sum>j<i. uint (a ! j) * 2 ^ (8 * j))"
  define B where "B = (\<Sum>j<i. uint (b ! j) * 2 ^ (8 * j))"
  have A: "0 \<le> A" "A < P" using psum_bounds [of a i] by (simp_all add: A_def P_def)
  have B: "0 \<le> B" "B < P" using psum_bounds [of b i] by (simp_all add: B_def P_def)
  have IH: "compare_from a b i = sgn (A - B)" using Suc by (simp add: A_def B_def)
  have il: "i < length b" using Suc.prems by simp
  define y where "y = (uint (a ! i) - uint (b ! i)) * P"
  have S: "(\<Sum>j<Suc i. uint (a ! j) * 2 ^ (8 * j)) - (\<Sum>j<Suc i. uint (b ! j) * 2 ^ (8 * j))
      = (A - B) + y"
    by (simp add: A_def B_def P_def y_def algebra_simps)
  show ?case
  proof (cases "a ! i > b ! i")
    case True
    then have "1 \<le> uint (a ! i) - uint (b ! i)" by (simp add: word_less_def)
    then have "1 * P \<le> (uint (a ! i) - uint (b ! i)) * P"
      using A by (intro mult_right_mono) simp_all
    then have "P \<le> y" by (simp only: y_def mult_1)
    with A B have "0 < (A - B) + y" by linarith
    with True il show ?thesis unfolding S by simp
  next
    case False
    show ?thesis
    proof (cases "a ! i < b ! i")
      case True
      then have "1 \<le> uint (b ! i) - uint (a ! i)" by (simp add: word_less_def)
      then have "1 * P \<le> (uint (b ! i) - uint (a ! i)) * P"
        using A by (intro mult_right_mono) simp_all
      moreover have "(uint (b ! i) - uint (a ! i)) * P = - y" by (simp add: y_def algebra_simps)
      ultimately have "P \<le> - y" by (simp only: mult_1)
      with A B have "(A - B) + y < 0" by linarith
      with True False il show ?thesis unfolding S by simp
    next
      case F2: False
      with False have "a ! i = b ! i" by simp
      then have "y = 0" by (simp add: y_def)
      with False F2 il IH show ?thesis unfolding S by simp
    qed
  qed
qed

lemma compare_decode:
  assumes "length a = L" and "length b = L"
  shows "compare a b = sgn (uint8ArrayToBigint_LE a (Some L) - uint8ArrayToBigint_LE b (Some L))"
  using compare_from_sgn [of L b a] assms by (simp add: compare_def decode_sum)

lemma decode_zero: "uint8ArrayToBigint_LE (replicate L 0) (Some L) = 0"
  by (simp add: decode_sum)

lemma byteLength_loop_bound:
  "0 \<le> n \<Longrightarrow> i \<le> byteLength_loop n i \<and> n < 2 ^ (8 * (byteLength_loop n i - i))"
proof (induction n i rule: byteLength_loop.induct)
  case (1 n i)
  show ?case
  proof (cases "n > 0")
    case False
    then have "byteLength_loop n i = i" by (simp add: byteLength_loop.simps [of n i])
    moreover have "n = 0" using False "1.prems" by simp
    ultimately show ?thesis by simp
  next
    case True
    have "0 \<le> drop_bit 8 n" using "1.prems" by simp
    from "1.IH" [OF True this]
    have le: "Suc i \<le> byteLength_loop (drop_bit 8 n) (Suc i)"
      and lt: "drop_bit 8 n < 2 ^ (8 * (byteLength_loop (drop_bit 8 n) (Suc i) - Suc i))" by simp_all
    have step: "byteLength_loop n i = byteLength_loop (drop_bit 8 n) (Suc i)"
      using True by (simp add: byteLength_loop.simps [of n i])
    define m where "m = byteLength_loop (drop_bit 8 n) (Suc i) - Suc i"
    have "n div 256 < 2 ^ (8 * m)" using lt by (simp add: m_def drop_bit_eq_div)
    then have "n < 256 * 2 ^ (8 * m)" by linarith
    moreover have "byteLength_loop (drop_bit 8 n) (Suc i) - i = Suc m" using le by (simp add: m_def)
    ultimately have "n < 2 ^ (8 * (byteLength_loop (drop_bit 8 n) (Suc i) - i))"
      by (simp add: power_add)
    with le show ?thesis by (simp add: step)
  qed
qed

lemma nByteLength_bound: "0 \<le> n \<Longrightarrow> n < 2 ^ (8 * nByteLength n)"
  using byteLength_loop_bound [of n 0] by (simp add: nByteLength_def)

lemma draw_nonce_Some:
  "draw_nonce rnd L N zero t fuel = Some (K, t') \<Longrightarrow>
   length K = L \<and> \<not> (compare K N \<ge> 0 \<or> compare K zero = 0)"
  by (induction fuel arbitrary: t) (auto simp: Let_def getRandomValues_def split: if_splits)

lemma draw_nonce_in_range:
  assumes "draw_nonce rnd (nByteLength n) (bigintToUint8Array_LE n (nByteLength n))
             (replicate (nByteLength n) 0) t fuel = Some (K, t')"
  shows "1 \<le> uint8ArrayToBigint_LE K (Some (nByteLength n)) \<and>
         uint8ArrayToBigint_LE K (Some (nByteLength n)) < n"
proof -
  define L where "L = nByteLength n"
  define k where "k = uint8ArrayToBigint_LE K (Some L)"
  from draw_nonce_Some [OF assms]
  have len: "length K = L" and c1: "compare K (bigintToUint8Array_LE n L) < 0"
    and c2: "compare K (replicate L 0) \<noteq> 0" by (simp_all add: L_def)
  have k0: "0 \<le> k" by (simp add: k_def uint8ArrayToBigint_LE_nonneg)
  have "compare K (replicate L 0) = sgn (k - 0)"
    using compare_decode [OF len, of "replicate L 0"] by (simp add: decode_zero k_def)
  with c2 k0 have k1: "1 \<le> k" by (simp add: sgn_if split: if_splits)
  have lenN: "length (bigintToUint8Array_LE n L) = L"
    by (simp add: bigintToUint8Array_LE_def LE_loop_length)
  have cmp: "compare K (bigintToUint8Array_LE n L)
      = sgn (k - uint8ArrayToBigint_LE (bigintToUint8Array_LE n L) (Some L))"
    using compare_decode [OF len lenN] by (simp add: k_def)
  have "k < n"
  proof (cases "0 \<le> n")
    case True
    then have "n < 2 ^ (8 * L)" unfolding L_def by (rule nByteLength_bound)
    with True have "uint8ArrayToBigint_LE (bigintToUint8Array_LE n L) (Some L) = n"
      by (rule LE_decode_encode)
    with cmp c1 show ?thesis by (simp add: sgn_if split: if_splits)
  next
    case False
    then have "L = 0" by (simp add: L_def nByteLength_def byteLength_loop.simps [of n 0])
    with len have "K = []" by simp
    with c2 \<open>L = 0\<close> show ?thesis by (simp add: compare_def)
  qed
  with k1 show ?thesis by (simp add: k_def L_def)
qed

section \<open>Recovering the public point\<close>

lemma sdiv_nonneg: "0 \<le> X \<Longrightarrow> 0 < n \<Longrightarrow> X sdiv n = X div (n::int)"
  by (simp add: signed_divide_int_def sgn_if)

lemma and_one_cases: "Y AND 1 = 0 \<or> Y AND 1 = (1::int)"
  by (simp add: and_one_eq) presburger

lemma xor_bits_zero: "a = b \<Longrightarrow> a XOR b = (0::int)"
  by simp

lemma xor_bits_nonzero: "(Y AND 1) \<noteq> (Y' AND 1) \<Longrightarrow> (Y AND 1) XOR (Y' AND 1) \<noteq> (0::int)"
  using and_one_cases [of Y] and_one_cases [of Y'] by auto

lemma discriminant_bits:
  "drop_bit 1 ((0 OR (Y AND 1)) OR push_bit 1 q) = (q::int) \<and>
   ((0 OR (Y AND 1)) OR push_bit 1 q) AND 1 = Y AND 1"
proof
  have a: "drop_bit 1 (Y AND 1) = 0"
  proof -
    have "drop_bit 1 (Y AND 1) = drop_bit 1 Y AND drop_bit 1 1" by (rule drop_bit_and)
    also have "drop_bit 1 (1::int) = 0" by (simp add: drop_bit_eq_div)
    finally show ?thesis by simp
  qed
  have b: "drop_bit 1 (push_bit 1 q) = q" by (simp add: drop_bit_eq_div push_bit_eq_mult)
  have "drop_bit 1 ((0 OR (Y AND 1)) OR push_bit 1 q)
      = (drop_bit 1 0 OR drop_bit 1 (Y AND 1)) OR drop_bit 1 (push_bit 1 q)"
    by (simp only: drop_bit_or)
  also have "\<dots> = q" by (simp only: a b) simp
  finally show "drop_bit 1 ((0 OR (Y AND 1)) OR push_bit 1 q) = q" .
  have "push_bit 1 q AND 1 = 0" by (simp add: and_one_eq push_bit_eq_mult)
  then show "((0 OR (Y AND 1)) OR push_bit 1 q) AND 1 = Y AND 1"
    by (simp add: bit.conj_disj_distrib2 and.assoc)
qed

lemma xor_one_bits:
  "drop_bit 1 (v XOR 1) = drop_bit 1 (v::int) \<and> (v XOR 1) AND 1 \<noteq> v AND 1"
  using xor_one_flips [of v] by simp

lemma fn_033399_fields:
  assumes X: "P_x R = Some X" and Y: "P_y R = Some Y" and X0: "0 \<le> X" and n: "0 < n"
    and S: "fn_033399 r s R n = Inr S"
  shows "sig_r S = r \<and> drop_bit 1 (sig_v S) = X div n \<and>
         ((sig_s S = s \<and> sig_v S AND 1 = Y AND 1) \<or>
          (sig_s S = n - s \<and> sig_v S AND 1 \<noteq> Y AND 1))"
proof -
  define v0 where "v0 = (0 OR (Y AND 1)) OR push_bit 1 (X div n)"
  have v0: "drop_bit 1 v0 = X div n" "v0 AND 1 = Y AND 1"
    using discriminant_bits [of Y "X div n"] by (simp_all add: v0_def)
  have S': "S = \<lparr>sig_r = r, sig_s = fst (low_s n (s, v0)), sig_v = snd (low_s n (s, v0))\<rparr>"
    using S X Y n sdiv_nonneg [OF X0 n] by (simp add: fn_033399_def Let_def v0_def)
  show ?thesis
  proof (cases "s > drop_bit 1 n")
    case True
    then have "low_s n (s, v0) = (n - s, v0 XOR 1)" by (simp add: low_s_def)
    with S' v0 xor_one_bits [of v0] show ?thesis by simp
  next
    case False
    then have "low_s n (s, v0) = (s, v0)" by (simp add: low_s_def)
    with S' v0 show ?thesis by simp
  qed
qed

lemma recover_scalar:
  fixes h hi e X ir r sk d u n :: int
  assumes "(h + hi) mod n = 0" and "h = e mod n" and "(X * ir) mod n = 1" and "r = X mod n"
    and "sk mod n = (e + r * d) mod n"
  shows "(ir * (hi + sk)) mod n = d mod n"
proof -
  have "(hi + e) mod n = (hi + e mod n) mod n" by (simp only: mod_add_right_eq)
  also have "\<dots> = 0" using assms(1,2) by (simp add: add.commute)
  finally have he: "(hi + e) mod n = 0" .
  have "(hi + sk) mod n = (hi + sk mod n) mod n" by (simp only: mod_add_right_eq)
  also have "\<dots> = (hi + (e + r * d) mod n) mod n" by (simp only: assms(5))
  also have "\<dots> = ((hi + e) + r * d) mod n" by (simp only: mod_add_right_eq add.assoc)
  also have "\<dots> = ((hi + e) mod n + r * d) mod n" by (simp only: mod_add_left_eq)
  also have "\<dots> = (r * d) mod n" by (simp add: he)
  also have "\<dots> = (X mod n * d) mod n" by (simp only: assms(4))
  also have "\<dots> = (X * d) mod n" by (simp only: mod_mult_left_eq)
  finally have 1: "(hi + sk) mod n = (X * d) mod n" .
  have "(ir * (hi + sk)) mod n = (ir * ((hi + sk) mod n)) mod n" by (simp only: mod_mult_right_eq)
  also have "\<dots> = (ir * (X * d)) mod n" by (simp only: 1 mod_mult_right_eq)
  also have "\<dots> = ((X * ir) * d) mod n" by (simp add: ac_simps)
  also have "\<dots> = ((X * ir) mod n * d) mod n" by (simp only: mod_mult_left_eq)
  also have "\<dots> = d mod n" by (simp add: assms(3))
  finally show ?thesis .
qed

lemma signed_product:
  fixes s k ki w n :: int
  assumes "(k * ki) mod n = 1" and "s = (w * ki) mod n"
  shows "(s * k) mod n = w mod n"
proof -
  have "(s * k) mod n = ((w * ki) mod n * k) mod n" by (simp only: assms(2))
  also have "\<dots> = (w * ki * k) mod n" by (simp only: mod_mult_left_eq)
  also have "\<dots> = (w * (k * ki)) mod n" by (simp add: ac_simps)
  also have "\<dots> = (w * ((k * ki) mod n)) mod n" by (simp only: mod_mult_right_eq)
  also have "\<dots> = w mod n" by (simp add: assms(1))
  finally show ?thesis .
qed

lemma negated_product:
  fixes s k b n :: int
  assumes "(k + b) mod n = 0"
  shows "((n - s) * b) mod n = (s * k) mod n"
proof -
  have "(s * b + s * k) mod n = (s * (k + b)) mod n" by (simp add: algebra_simps)
  also have "\<dots> = (s * ((k + b) mod n)) mod n" by (simp only: mod_mult_right_eq)
  also have "\<dots> = 0" by (simp add: assms)
  finally have "(- (s * b)) mod n = (s * k) mod n" by (rule neg_mod_eq)
  moreover have "((n - s) * b) mod n = (- (s * b) + b * n) mod n" by (simp add: algebra_simps)
  moreover have "(- (s * b) + b * n) mod n = (- (s * b)) mod n" by (rule mod_mult_self1)
  ultimately show ?thesis by simp
qed

lemma fn_560c92_unfold:
  assumes "E_solve T (new_FinitePoint\<lparr>P_x := Some (sig_r S + drop_bit 1 (sig_v S) * T_n T)\<rparr>) = Rs"
    and "P_y Rs = Some Ys"
    and "(if (sig_v S AND 1) XOR (Ys AND 1) \<noteq> 0 then E_negate T Rs else Rs) = Rr"
    and "P_x Rr = Some Xr" and "T_n T \<noteq> 0"
  shows "fn_560c92 T d8 S M =
    Inr (E_add T (E_multiply T (F_multiply T (F_inverse T (d8 M smod T_n T)) (F_reciprocal T Xr)) (T_G T))
          (E_multiply T (F_multiply T (sig_s S) (F_reciprocal T Xr)) Rr))"
  using assms(2,4,5) unfolding assms(1) [symmetric] assms(3) [symmetric]
  by (auto simp: fn_560c92_def Let_def)

lemma recover_point:
  assumes c: "domain_contract T" and d: "0 \<le> d" and e: "0 \<le> e"
    and X: "P_x (kG T k') = Some X" "0 \<le> X" "r = X mod T_n T" "r \<noteq> 0"
    and k': "0 \<le> k'" and s2: "0 \<le> s2" and sk: "(s2 * k') mod T_n T = (e + r * d) mod T_n T"
  shows "E_add T (E_multiply T (F_multiply T (F_inverse T (e smod T_n T)) (F_reciprocal T X)) (T_G T))
          (E_multiply T (F_multiply T s2 (F_reciprocal T X)) (kG T k')) = kG T d"
proof -
  have n: "1 < T_n T" using c by (rule contract_n)
  define h where "h = e mod T_n T"
  define hi where "hi = F_inverse T h"
  define ir where "ir = F_reciprocal T X"
  have h: "0 \<le> h" "h < T_n T" using n by (simp_all add: h_def)
  have hs: "e smod T_n T = h" using e n by (simp add: smod_nonneg h_def)
  from contract_F_inverse [OF c h] have hi: "0 \<le> hi" "(h + hi) mod T_n T = 0"
    by (simp_all add: hi_def)
  have Xn: "X mod T_n T \<noteq> 0" using X by simp
  from contract_F_reciprocal [OF c X(2) Xn] have ir: "0 \<le> ir" "(X * ir) mod T_n T = 1"
    by (simp_all add: ir_def)
  define u1 where "u1 = (hi * ir) mod T_n T"
  define u2 where "u2 = (s2 * ir) mod T_n T"
  have u: "0 \<le> u1" "0 \<le> u2" using n by (simp_all add: u1_def u2_def)
  have m1: "F_multiply T hi ir = u1" using contract_F_multiply [OF c hi(1) ir(1)] by (simp add: u1_def)
  have m2: "F_multiply T s2 ir = u2" using contract_F_multiply [OF c s2 ir(1)] by (simp add: u2_def)
  have "E_add T (E_multiply T u1 (T_G T)) (E_multiply T u2 (kG T k'))
      = E_add T (kG T u1) (kG T (u2 * k'))"
    using contract_E_multiply [OF c u(2) k'] by (simp add: kG_def)
  also have "\<dots> = kG T (u1 + u2 * k')"
    using u k' by (intro contract_E_add [OF c]) simp_all
  also have "\<dots> = kG T d"
  proof (rule contract_cong [OF c])
    show "0 \<le> u1 + u2 * k'" using u k' by simp
    show "0 \<le> d" by (rule d)
    have "(u1 + u2 * k') mod T_n T = ((hi * ir) mod T_n T + ((s2 * ir) mod T_n T * k') mod T_n T) mod T_n T"
      by (simp only: u1_def u2_def mod_add_right_eq)
    also have "\<dots> = ((hi * ir) mod T_n T + (s2 * ir * k') mod T_n T) mod T_n T"
      by (simp only: mod_mult_left_eq)
    also have "\<dots> = (hi * ir + s2 * ir * k') mod T_n T"
      by (simp only: mod_add_eq)
    also have "\<dots> = (ir * (hi + s2 * k')) mod T_n T"
      by (simp add: algebra_simps)
    also have "\<dots> = d mod T_n T"
      using hi(2) h_def ir(2) X(3) sk by (rule recover_scalar)
    finally show "(u1 + u2 * k') mod T_n T = d mod T_n T" .
  qed
  finally show ?thesis by (simp only: hs hi_def [symmetric] ir_def [symmetric] m1 m2)
qed

lemma fast_recover_signed:
  assumes c: "domain_contract T" and p: "EF_p T mod 4 = 3" and d: "0 \<le> d" and e: "0 \<le> ef M"
    and se: "signing_equation T d (ef M) k r s"
    and S: "fn_033399 r s (kG T k) (T_n T) = Inr S"
  shows "fn_560c92 T ef S M = Inr (kG T d)"
proof -
  from sign_facts [OF c d e se] obtain X
    where r: "0 < r" "r < T_n T" and s: "0 < s" "s < T_n T" and k0: "0 \<le> k"
      and kn: "k mod T_n T \<noteq> 0" and s': "s = ((ef M + r * d) * F_reciprocal T k) mod T_n T"
      and X: "P_x (kG T k) = Some X" "0 \<le> X" "r = X mod T_n T"
    by blast
  have n: "1 < T_n T" using c by (rule contract_n)
  from contract_coords [OF c k0 kn] X(1) obtain Y where Y: "P_y (kG T k) = Some Y" by auto
  define b where "b = k * (T_n T - 1)"
  have b0: "0 \<le> b" using k0 n by (simp add: b_def)
  have "k + b = k * T_n T" by (simp add: b_def algebra_simps)
  then have kb: "(k + b) mod T_n T = 0" by simp
  then have bk: "(b + k) mod T_n T = 0" by (simp add: add.commute)
  from negate_facts [OF c k0 kn b0 kb]
  have neg: "E_negate T (kG T k) = kG T b" and bn: "b mod T_n T \<noteq> 0"
    and xb: "P_x (kG T b) = Some X" and par: "\<forall>Y Y'. P_y (kG T k) = Some Y \<and> P_y (kG T b) = Some Y' \<longrightarrow> Y' AND 1 \<noteq> Y AND 1"
    using X(1) by simp_all
  from contract_coords [OF c b0 bn] obtain Y' where Y': "P_y (kG T b) = Some Y'" by auto
  from par Y Y' have YY: "Y' AND 1 \<noteq> Y AND 1" by simp
  have neg2: "E_negate T (kG T b) = kG T k" using c b0 k0 bk by (rule contract_E_negate)
  from fn_033399_fields [OF X(1) Y X(2) _ S] n
  have Sr: "sig_r S = r" and Sv: "drop_bit 1 (sig_v S) = X div T_n T"
    and cases: "(sig_s S = s \<and> sig_v S AND 1 = Y AND 1) \<or> (sig_s S = T_n T - s \<and> sig_v S AND 1 \<noteq> Y AND 1)"
    by simp_all
  have x: "sig_r S + drop_bit 1 (sig_v S) * T_n T = X"
    using Sv by (simp add: Sr X(3))
  define Rs where "Rs = E_solve T (new_FinitePoint\<lparr>P_x := Some X\<rparr>)"
  have "P_x (new_FinitePoint\<lparr>P_x := Some X\<rparr>) = P_x (kG T k)" using X(1) by simp
  from contract_solve [OF c p k0 kn this] neg
  have Rs: "Rs = kG T k \<or> Rs = kG T b" by (simp add: Rs_def)
  have RsE: "E_solve T (new_FinitePoint\<lparr>P_x := Some (sig_r S + drop_bit 1 (sig_v S) * T_n T)\<rparr>) = Rs"
    by (simp only: x Rs_def)
  have n0: "T_n T \<noteq> 0" using n by simp
  define ki where "ki = F_reciprocal T k"
  from contract_F_reciprocal [OF c k0 kn] have ki: "(k * ki) mod T_n T = 1" by (simp add: ki_def)
  have sk: "(s * k) mod T_n T = (ef M + r * d) mod T_n T"
    using ki s' unfolding ki_def by (rule signed_product)
  have r0: "r \<noteq> 0" using r by simp
  from cases show ?thesis
  proof
    assume A: "sig_s S = s \<and> sig_v S AND 1 = Y AND 1"
    have sel: "(if (sig_v S AND 1) XOR (Ys AND 1) \<noteq> 0 then E_negate T Rs else Rs) = kG T k"
      if "P_y Rs = Some Ys" for Ys
      using Rs
    proof
      assume "Rs = kG T k"
      with that Y A show ?thesis by simp
    next
      assume R: "Rs = kG T b"
      with that Y' have "Ys = Y'" by simp
      with A YY have "(sig_v S AND 1) XOR (Ys AND 1) \<noteq> 0"
        using xor_bits_nonzero [of Y Y'] by simp
      with R neg2 show ?thesis by simp
    qed
    from Rs Y Y' obtain Ys where Ys: "P_y Rs = Some Ys" by auto
    have "fn_560c92 T ef S M =
      Inr (E_add T (E_multiply T (F_multiply T (F_inverse T (ef M smod T_n T)) (F_reciprocal T X)) (T_G T))
          (E_multiply T (F_multiply T (sig_s S) (F_reciprocal T X)) (kG T k)))"
      by (rule fn_560c92_unfold [OF RsE Ys sel [OF Ys] X(1) n0])
    also have "\<dots> = Inr (kG T d)"
      using recover_point [OF c d e X(1) X(2) X(3) r0 k0 _ sk] s A by simp
    finally show ?thesis .
  next
    assume B: "sig_s S = T_n T - s \<and> sig_v S AND 1 \<noteq> Y AND 1"
    have sel: "(if (sig_v S AND 1) XOR (Ys AND 1) \<noteq> 0 then E_negate T Rs else Rs) = kG T b"
      if "P_y Rs = Some Ys" for Ys
      using Rs
    proof
      assume R: "Rs = kG T k"
      with that Y have "Ys = Y" by simp
      with B have "(sig_v S AND 1) XOR (Ys AND 1) \<noteq> 0"
        using xor_bits_nonzero [of "sig_v S" Y] by simp
      with R neg show ?thesis by simp
    next
      assume R: "Rs = kG T b"
      with that Y' have "Ys = Y'" by simp
      moreover have "sig_v S AND 1 = Y' AND 1"
        using B YY and_one_cases [of "sig_v S"] and_one_cases [of Y] and_one_cases [of Y'] by auto
      ultimately show ?thesis using R by simp
    qed
    from Rs Y Y' obtain Ys where Ys: "P_y Rs = Some Ys" by auto
    have sk2: "((T_n T - s) * b) mod T_n T = (ef M + r * d) mod T_n T"
      using negated_product [OF kb, of s] sk by simp
    have s2: "0 \<le> T_n T - s" using s by simp
    have "fn_560c92 T ef S M =
      Inr (E_add T (E_multiply T (F_multiply T (F_inverse T (ef M smod T_n T)) (F_reciprocal T X)) (T_G T))
          (E_multiply T (F_multiply T (sig_s S) (F_reciprocal T X)) (kG T b)))"
      by (rule fn_560c92_unfold [OF RsE Ys sel [OF Ys] xb n0])
    also have "\<dots> = Inr (kG T d)"
      using recover_point [OF c d e xb X(2) X(3) r0 b0 s2 sk2] B by simp
    finally show ?thesis .
  qed
qed

section \<open>The generic recoverer\<close>

text \<open>
  The loop of the class form computes the same list as the loop of the generic form, started
  with the class form's values of \<open>eG\<close> and of the reciprocal.
\<close>

lemma recover_inner_2:
  "recover_inner T s eG rr R 2 =
     ([E_multiply T rr (E_add T (E_multiply T s R) eG),
       E_multiply T rr (E_add T (E_multiply T s (E_negate T R)) eG)],
      E_negate T (E_negate T R))"
  by (simp add: numeral_2_eq_2 Let_def)

lemma Ecdsa_recover_loop_eq:
  "Ecdsa_recover_loop T S H hashlen R j =
   recover_loop T (sig_r S) (sig_s S)
     (E_multiply T (F_inverse T (uint8ArrayToBigint_LE H (Some hashlen))) (T_G T))
     (F_reciprocal T (sig_r S)) R j (j * T_n T)"
proof (induction T S H hashlen R j rule: Ecdsa_recover_loop.induct)
  case (1 T S H hashlen R j)
  show ?case
  proof (cases "j \<le> T_h T")
    case False
    then show ?thesis
      by (simp add: Ecdsa_recover_loop.simps [of T S H hashlen R j]
          recover_loop.simps [of T _ _ _ _ R j])
  next
    case True
    define R2 where "R2 = E_solve T (R\<lparr>P_x := Some (EF_add T (sig_r S) (j * T_n T))\<rparr>)"
    have jn: "j * T_n T + T_n T = (j + 1) * T_n T" by (simp add: algebra_simps)
    show ?thesis
    proof (cases "isIdentity (E_multiply T (T_n T) R2)")
      case False
      from "1.IH"(1) [OF True refl refl refl refl, folded R2_def, OF False]
      have "Ecdsa_recover_loop T S H hashlen R2 (j + 1) =
        recover_loop T (sig_r S) (sig_s S)
          (E_multiply T (F_inverse T (uint8ArrayToBigint_LE H (Some hashlen))) (T_G T))
          (F_reciprocal T (sig_r S)) R2 (j + 1) ((j + 1) * T_n T)" .
      with True False show ?thesis
        by (simp add: Ecdsa_recover_loop.simps [of T S H hashlen R j]
            recover_loop.simps [of T _ _ _ _ R j] Let_def R2_def [symmetric] jn)
    next
      case id: True
      define inner where "inner = recover_inner T (sig_s S)
          (E_multiply T (F_inverse T (uint8ArrayToBigint_LE H (Some hashlen))) (T_G T))
          (F_reciprocal T (sig_r S)) R2 2"
      have "Ecdsa_recover_loop T S H hashlen (snd inner) (j + 1) =
        recover_loop T (sig_r S) (sig_s S)
          (E_multiply T (F_inverse T (uint8ArrayToBigint_LE H (Some hashlen))) (T_G T))
          (F_reciprocal T (sig_r S)) (snd inner) (j + 1) ((j + 1) * T_n T)"
        using "1.IH"(2) [OF True refl refl refl refl, folded R2_def] id
        by (simp add: inner_def)
      with True id show ?thesis
        by (simp add: Ecdsa_recover_loop.simps [of T S H hashlen R j]
            recover_loop.simps [of T _ _ _ _ R j] Let_def R2_def [symmetric] inner_def [symmetric] jn)
    qed
  qed
qed

lemma div_le_cofactor:
  fixes X n h :: int
  assumes "X < (h + 1) * n" and "0 < n"
  shows "X div n \<le> h"
proof (rule ccontr)
  assume "\<not> X div n \<le> h"
  then have "h + 1 \<le> X div n" by simp
  then have "(h + 1) * n \<le> (X div n) * n" using assms(2) by (intro mult_right_mono) simp_all
  moreover have "(X div n) * n + X mod n = X" by (rule div_mult_mod_eq)
  moreover have "0 \<le> X mod n" using assms(2) by simp
  ultimately show False using assms(1) by linarith
qed

lemma multiple_identity:
  assumes c: "domain_contract T" and k: "0 \<le> k"
  shows "isIdentity (E_multiply T (T_n T) (kG T k))"
proof -
  have n: "0 \<le> T_n T" using contract_n [OF c] by simp
  have "E_multiply T (T_n T) (kG T k) = kG T (T_n T * k)" using c n k by (rule contract_E_multiply)
  moreover have "isIdentity (kG T (T_n T * k))"
    using contract_identity [OF c, of "T_n T * k"] n k by simp
  ultimately show ?thesis by simp
qed

lemma recover_loop_complete:
  assumes c: "domain_contract T" and p: "EF_p T mod 4 = 3" and pb: "EF_p T \<le> (T_h T + 1) * T_n T"
    and k: "0 \<le> k" "k mod T_n T \<noteq> 0"
    and X: "P_x (kG T k) = Some X" "0 \<le> X" "X < EF_p T" "r = X mod T_n T"
    and Q: "E_multiply T rr (E_add T (E_multiply T s (kG T k)) eG) = Q"
  shows "0 \<le> j \<Longrightarrow> j \<le> X div T_n T \<Longrightarrow> jn = j * T_n T \<Longrightarrow>
         Q \<in> set (recover_loop T r s eG rr R j jn)"
proof (induction "nat (X div T_n T - j)" arbitrary: j jn R)
  case 0
  then have j: "j = X div T_n T" by simp
  have n: "1 < T_n T" using c by (rule contract_n)
  have jh: "j \<le> T_h T"
    unfolding j using X(3) pb n by (intro div_le_cofactor) simp_all
  have r0: "0 \<le> r" using X(4) n by simp
  have jn0: "0 \<le> jn" using "0.prems"(1,3) n by simp
  have "r + jn = X" using "0.prems"(3) X(4) j by simp
  then have "EF_add T r jn = X mod EF_p T" using contract_EF_add [OF c r0 jn0] by simp
  also have "\<dots> = X" using X(2,3) by simp
  finally have x: "EF_add T r jn = X" .
  define R2 where "R2 = E_solve T (R\<lparr>P_x := Some (EF_add T r jn)\<rparr>)"
  define b where "b = k * (T_n T - 1)"
  have b0: "0 \<le> b" using k(1) n by (simp add: b_def)
  have "k + b = k * T_n T" by (simp add: b_def algebra_simps)
  then have kb: "(k + b) mod T_n T = 0" by simp
  then have bk: "(b + k) mod T_n T = 0" by (simp add: add.commute)
  have neg: "E_negate T (kG T k) = kG T b" using c k(1) b0 kb by (rule contract_E_negate)
  have neg2: "E_negate T (kG T b) = kG T k" using c b0 k(1) bk by (rule contract_E_negate)
  have "P_x (R\<lparr>P_x := Some (EF_add T r jn)\<rparr>) = P_x (kG T k)" using X(1) x by simp
  from contract_solve [OF c p k this] neg
  have R2: "R2 = kG T k \<or> R2 = kG T b" by (simp add: R2_def)
  have id: "isIdentity (E_multiply T (T_n T) R2)"
    using R2 multiple_identity [OF c k(1)] multiple_identity [OF c b0] by auto
  have "Q \<in> set (fst (recover_inner T s eG rr R2 2))"
    using R2 Q neg2 by (auto simp: recover_inner_2)
  with jh id show ?case
    by (simp add: recover_loop.simps [of T r s eG rr R j jn] Let_def R2_def [symmetric])
next
  case (Suc m)
  have n: "1 < T_n T" using c by (rule contract_n)
  have lt: "j < X div T_n T" using Suc.hyps(2) by simp
  have "X div T_n T \<le> T_h T"
    using X(3) pb n by (intro div_le_cofactor) simp_all
  with lt have jh: "j \<le> T_h T" by simp
  have m: "m = nat (X div T_n T - (j + 1))" using Suc.hyps(2) by simp
  have j1: "0 \<le> j + 1" "j + 1 \<le> X div T_n T" using Suc.prems(1) lt by simp_all
  have jn1: "jn + T_n T = (j + 1) * T_n T" using Suc.prems(3) by (simp add: algebra_simps)
  have IH: "Q \<in> set (recover_loop T r s eG rr R' (j + 1) (jn + T_n T))" for R'
    using Suc.hyps(1) [OF m j1 jn1] .
  from jh IH show ?case
    by (simp add: recover_loop.simps [of T r s eG rr R j jn] Let_def)
qed


lemma reduced_inverse:
  assumes n: "1 < T_n T" and e: "0 \<le> e" and i: "inverse_negates T (e smod T_n T)"
  shows "0 \<le> F_inverse T (e smod T_n T) \<and> (e + F_inverse T (e smod T_n T)) mod T_n T = 0"
proof -
  have sm: "e smod T_n T = e mod T_n T" using e n by (simp add: smod_nonneg)
  from i have hi: "0 \<le> F_inverse T (e mod T_n T)" "(e mod T_n T + F_inverse T (e mod T_n T)) mod T_n T = 0"
    by (simp_all add: inverse_negates_def sm)
  have "(e + F_inverse T (e mod T_n T)) mod T_n T = (e mod T_n T + F_inverse T (e mod T_n T)) mod T_n T"
    by (simp only: mod_add_left_eq)
  with hi show ?thesis by (simp add: sm)
qed

lemma contract_reduced_inverse:
  assumes c: "domain_contract T" and e: "0 \<le> e"
  shows "inverse_negates T (e smod T_n T)"
proof -
  have n: "1 < T_n T" using c by (rule contract_n)
  then have "0 \<le> e mod T_n T" "e mod T_n T < T_n T" by simp_all
  moreover have "e smod T_n T = e mod T_n T" using e n by (simp add: smod_nonneg)
  ultimately show ?thesis using contract_F_inverse [OF c] by (simp add: inverse_negates_def)
qed

lemma candidate_is_public_point:
  assumes c: "domain_contract T" and d: "0 \<le> d" and e: "0 \<le> e"
    and se: "signing_equation T d e k r s"
    and hi: "0 \<le> hi" "(e + hi) mod T_n T = 0"
  shows "E_multiply T (F_reciprocal T r) (E_add T (E_multiply T s (kG T k)) (kG T hi)) = kG T d"
proof -
  from sign_facts [OF c d e se]
  have r: "0 < r" "r < T_n T" and s: "0 < s" and k0: "0 \<le> k" and kn: "k mod T_n T \<noteq> 0"
    and s': "s = ((e + r * d) * F_reciprocal T k) mod T_n T" by simp_all
  have rn: "r mod T_n T \<noteq> 0" "r = r mod T_n T" using r by simp_all
  from contract_F_reciprocal [OF c _ rn(1)] r
  have rr: "0 \<le> F_reciprocal T r" "(r * F_reciprocal T r) mod T_n T = 1" by simp_all
  from contract_F_reciprocal [OF c k0 kn] have ki: "(k * F_reciprocal T k) mod T_n T = 1" by simp
  have sk: "(s * k) mod T_n T = (e + r * d) mod T_n T" using ki s' by (rule signed_product)
  have he: "(e mod T_n T + hi) mod T_n T = 0" using hi(2) by (simp only: mod_add_left_eq)
  have sk0: "0 \<le> s * k" using s k0 by simp
  have "E_multiply T (F_reciprocal T r) (E_add T (E_multiply T s (kG T k)) (kG T hi))
      = E_multiply T (F_reciprocal T r) (E_add T (kG T (s * k)) (kG T hi))"
    using contract_E_multiply [OF c _ k0, of s] s by simp
  also have "\<dots> = E_multiply T (F_reciprocal T r) (kG T (s * k + hi))"
    using contract_E_add [OF c sk0 hi(1)] by simp
  also have "\<dots> = kG T (F_reciprocal T r * (s * k + hi))"
    using sk0 hi(1) rr(1) by (intro contract_E_multiply [OF c]) simp_all
  also have "\<dots> = kG T d"
  proof (rule contract_cong [OF c])
    show "0 \<le> F_reciprocal T r * (s * k + hi)" using sk0 hi(1) rr(1) by simp
    show "0 \<le> d" by (rule d)
    have "(F_reciprocal T r * (hi + s * k)) mod T_n T = d mod T_n T"
      using he refl rr(2) rn(2) sk by (rule recover_scalar)
    then show "(F_reciprocal T r * (s * k + hi)) mod T_n T = d mod T_n T" by (simp add: add.commute)
  qed
  finally show ?thesis .
qed

lemma fn_2bfce0_eq:
  "T_n T \<noteq> 0 \<Longrightarrow> fn_2bfce0 T ef S M =
     Inr (recover_loop T (sig_r S) (sig_s S) (E_multiply T (F_inverse T (ef M smod T_n T)) (T_G T))
            (F_reciprocal T (sig_r S)) (new_FinitePoint\<lparr>isIdentity := False\<rparr>) 0 0)"
  by (simp add: fn_2bfce0_def Let_def)

lemma Ecdsa_recover_p3mod4_eq:
  "Ecdsa_recover_p3mod4 T S H hashlen =
     recover_loop T (sig_r S) (sig_s S)
       (E_multiply T (F_inverse T (uint8ArrayToBigint_LE H (Some hashlen))) (T_G T))
       (F_reciprocal T (sig_r S)) (new_FinitePoint\<lparr>isIdentity := False\<rparr>) 0 0"
  using Ecdsa_recover_loop_eq [of T S H hashlen "new_FinitePoint\<lparr>isIdentity := False\<rparr>" 0]
  by (simp add: Ecdsa_recover_p3mod4_def)

lemma recover_signed:
  assumes c: "domain_contract T" and p: "EF_p T mod 4 = 3" and pb: "EF_p T \<le> (T_h T + 1) * T_n T"
    and d: "0 \<le> d" and e: "0 \<le> e"
    and se: "signing_equation T d e k r s"
    and hi: "0 \<le> hi" "(e + hi) mod T_n T = 0"
  shows "kG T d \<in> set (recover_loop T r s (E_multiply T hi (T_G T)) (F_reciprocal T r) R 0 0)"
proof -
  from sign_facts [OF c d e se] obtain X
    where k0: "0 \<le> k" and kn: "k mod T_n T \<noteq> 0"
      and X: "P_x (kG T k) = Some X" "0 \<le> X" "X < EF_p T" "r = X mod T_n T"
    by blast
  have n: "1 < T_n T" using c by (rule contract_n)
  have Q: "E_multiply T (F_reciprocal T r)
      (E_add T (E_multiply T s (kG T k)) (E_multiply T hi (T_G T))) = kG T d"
    unfolding kG_def [symmetric] using c d e se hi by (rule candidate_is_public_point)
  have j0: "0 \<le> X div T_n T" using X(2) n by (simp add: pos_imp_zdiv_nonneg_iff)
  show ?thesis
    using c p pb k0 kn X Q order_refl j0 by (rule recover_loop_complete) simp
qed


section \<open>Claims about the signer\<close>

text \<open>
  Claim C8. Every base-form signature the signer returns has \<open>0 < r < n\<close> and
  \<open>0 < s < n\<close>, in the generic form and in the class form, for a domain that meets the
  contract, a secret in \<open>(0, n)\<close> and a digest integer that is not negative (the class
  form decodes it from bytes, so it never is).
\<close>

theorem sign_in_range:
  assumes "domain_contract T" and "0 < d" and "d < T_n T" and "0 \<le> ef M"
  shows "(fn_6dcb8a T ef fn_f34c7e rnd fuel d M = Some (Inr S) \<longrightarrow>
            0 < sig_r S \<and> sig_r S < T_n T \<and> 0 < sig_s S \<and> sig_s S < T_n T) \<and>
         (Ecdsa_sign T H d hashlen rnd fuel = Some S' \<longrightarrow>
            0 < sig_r S' \<and> sig_r S' < T_n T \<and> 0 < sig_s S' \<and> sig_s S' < T_n T)"
proof (rule conjI; rule impI)
  assume "fn_6dcb8a T ef fn_f34c7e rnd fuel d M = Some (Inr S)"
  from fn_6dcb8a_Some [OF this] obtain k r s
    where se: "signing_equation T d (ef M) k r s" and S: "S = \<lparr>sig_r = r, sig_s = s\<rparr>"
    by (auto simp: fn_f34c7e_def fn_f6555a_def)
  from sign_facts [OF assms(1) _ assms(4) se] assms(2) S
  show "0 < sig_r S \<and> sig_r S < T_n T \<and> 0 < sig_s S \<and> sig_s S < T_n T" by simp
next
  assume "Ecdsa_sign T H d hashlen rnd fuel = Some S'"
  from Ecdsa_sign_Some [OF this] obtain k r s
    where se: "signing_equation T d (uint8ArrayToBigint_LE H (Some hashlen)) k r s"
      and S: "S' = \<lparr>sig_r = r, sig_s = s\<rparr>" by blast
  from sign_facts [OF assms(1) _ uint8ArrayToBigint_LE_nonneg se] assms(2) S
  show "0 < sig_r S' \<and> sig_r S' < T_n T \<and> 0 < sig_s S' \<and> sig_s S' < T_n T" by simp
qed

theorem sign_in_range_witness:
  "domain_contract toy \<and> (0::int) < 5 \<and> 5 < T_n toy \<and> (0::int) \<le> (\<lambda>M. 9) ([] :: Uint8Array) \<and>
   fn_6dcb8a toy (\<lambda>M. 9) fn_f34c7e (\<lambda>t i. 3) 1 5 [] = Some (Inr \<lparr>sig_r = 8, sig_s = 12\<rparr>) \<and>
   Ecdsa_sign toy [9] 5 1 (\<lambda>t i. 3) 1 = Some \<lparr>sig_r = 8, sig_s = 12\<rparr> \<and>
   0 < sig_r \<lparr>sig_r = 8, sig_s = 12\<rparr> \<and> sig_r \<lparr>sig_r = 8, sig_s = 12\<rparr> < T_n toy \<and>
   0 < sig_s \<lparr>sig_r = 8, sig_s = 12\<rparr> \<and> sig_s \<lparr>sig_r = 8, sig_s = 12\<rparr> < T_n toy"
  using sign_in_range [OF toy_contract, of 5 "\<lambda>M. 9" "[]" "(\<lambda>t i. 3)" 1 "\<lparr>sig_r = 8, sig_s = 12\<rparr>" "[9]" 1 "\<lparr>sig_r = 8, sig_s = 12\<rparr>"]
    toy_contract toy_sign_run toy_Ecdsa_sign_run
  by (simp add: toy_sel)

text \<open>
  Claim C1. For a domain that meets the contract, a secret \<open>d\<close> in \<open>(0, n)\<close> and a
  digest integer that is not negative, a signature that a signer returns verifies against
  the public point \<open>d\<cdot>G\<close> and the same message: the generic signer with the base form
  and with the recoverable form, checked by the generic verifier, and the class-form signer,
  checked by the class-form verifier. A signer returns with any nonce its loop accepts.
\<close>

theorem sign_verify_roundtrip:
  assumes "domain_contract T" and "0 < d" and "d < T_n T" and "0 \<le> ef M"
  shows "(fn_6dcb8a T ef fn_f34c7e rnd fuel d M = Some (Inr S) \<longrightarrow>
            verify T ef (E_multiply T d (T_G T)) S M = Inr True) \<and>
         (fn_6dcb8a T ef fn_30ecde rnd fuel d M = Some (Inr S2) \<longrightarrow>
            verify T ef (E_multiply T d (T_G T)) S2 M = Inr True) \<and>
         (Ecdsa_sign T H d hashlen rnd fuel = Some S' \<longrightarrow>
            Ecdsa_verify (E_multiply T d (T_G T)) T S' H hashlen = Inr True)"
proof -
  have d: "0 \<le> d" using assms(2) by simp
  have 1: "verify T ef (E_multiply T d (T_G T)) S M = Inr True"
    if "fn_6dcb8a T ef fn_f34c7e rnd fuel d M = Some (Inr S)"
  proof -
    from fn_6dcb8a_Some [OF that] obtain k r s
      where se: "signing_equation T d (ef M) k r s" and S: "S = \<lparr>sig_r = r, sig_s = s\<rparr>"
      by (auto simp: fn_f34c7e_def fn_f6555a_def)
    from S have "sig_r S = r" "sig_s S = s \<or> sig_s S = T_n T - s" by simp_all
    with assms(1) d assms(4) se show ?thesis by (rule verify_signed_scheme)
  qed
  have 2: "verify T ef (E_multiply T d (T_G T)) S2 M = Inr True"
    if "fn_6dcb8a T ef fn_30ecde rnd fuel d M = Some (Inr S2)"
  proof -
    from fn_6dcb8a_Some [OF that] obtain k r s
      where se: "signing_equation T d (ef M) k r s"
        and S: "fn_033399 r s (kG T k) (T_n T) = Inr S2"
      by (auto simp: fn_30ecde_def)
    from fn_033399_Inr [OF S] have "sig_r S2 = r" "sig_s S2 = s \<or> sig_s S2 = T_n T - s" by simp_all
    with assms(1) d assms(4) se show ?thesis by (rule verify_signed_scheme)
  qed
  have 3: "Ecdsa_verify (E_multiply T d (T_G T)) T S' H hashlen = Inr True"
    if "Ecdsa_sign T H d hashlen rnd fuel = Some S'"
  proof -
    from Ecdsa_sign_Some [OF that] obtain k r s
      where se: "signing_equation T d (uint8ArrayToBigint_LE H (Some hashlen)) k r s"
        and S: "S' = \<lparr>sig_r = r, sig_s = s\<rparr>" by blast
    have "Ecdsa_verify (E_multiply T d (T_G T)) T \<lparr>sig_r = r, sig_s = s\<rparr> H hashlen = Inr True"
      using assms(1) d se by (rule Ecdsa_verify_signed)
    with S show ?thesis by simp
  qed
  from 1 2 3 show ?thesis by blast
qed

theorem sign_verify_roundtrip_witness:
  "domain_contract toy \<and> (0::int) < 5 \<and> 5 < T_n toy \<and> (0::int) \<le> (\<lambda>M. 9) ([] :: Uint8Array) \<and>
   fn_6dcb8a toy (\<lambda>M. 9) fn_f34c7e (\<lambda>t i. 3) 1 5 [] = Some (Inr \<lparr>sig_r = 8, sig_s = 12\<rparr>) \<and>
   verify toy (\<lambda>M. 9) (E_multiply toy 5 (T_G toy)) \<lparr>sig_r = 8, sig_s = 12\<rparr> [] = Inr True \<and>
   fn_6dcb8a toy (\<lambda>M. 9) fn_30ecde (\<lambda>t i. 3) 1 5 [] = Some (Inr \<lparr>sig_r = 8, sig_s = 1, sig_v = 0\<rparr>) \<and>
   verify toy (\<lambda>M. 9) (E_multiply toy 5 (T_G toy)) \<lparr>sig_r = 8, sig_s = 1, sig_v = 0\<rparr> [] = Inr True \<and>
   Ecdsa_sign toy [9] 5 1 (\<lambda>t i. 3) 1 = Some \<lparr>sig_r = 8, sig_s = 12\<rparr> \<and>
   Ecdsa_verify (E_multiply toy 5 (T_G toy)) toy \<lparr>sig_r = 8, sig_s = 12\<rparr> [9] 1 = Inr True"
  using sign_verify_roundtrip [OF toy_contract, of 5 "\<lambda>M. 9" "[]" "(\<lambda>t i. 3)" 1
      "\<lparr>sig_r = 8, sig_s = 12\<rparr>" "\<lparr>sig_r = 8, sig_s = 1, sig_v = 0\<rparr>" "[9]" 1 "\<lparr>sig_r = 8, sig_s = 12\<rparr>"]
    toy_contract toy_sign_run toy_sign_recoverable_run toy_Ecdsa_sign_run
  by (simp add: toy_sel)

text \<open>
  Claim C7. For a point with coordinates \<open>(X, Y)\<close> and \<open>n\<close> not zero, \<^verbatim>\<open>_033399_\<close>
  first builds the discriminant \<open>v\<^sub>0\<close> from the parity of \<open>Y\<close> and from \<open>X / n\<close>.
  It returns \<open>n - s\<close> and \<open>v\<^sub>0\<close> with bit 0 flipped (the other bits stay) when
  \<open>s > n / 2\<close>, and \<open>s\<close> and \<open>v\<^sub>0\<close> themselves otherwise. What it returns has
  \<open>s \<le> n / 2\<close>, and the low-s step applied to it again changes neither \<open>s\<close> nor
  \<open>v\<close>; so it is with every recoverable signature the signer returns.
\<close>

theorem low_s_normalization:
  assumes "P_x R = Some X" and "P_y R = Some Y" and "n \<noteq> 0"
    and "v0 = (Y AND 1) OR push_bit 1 (X sdiv n)"
  shows "fn_033399 r s R n =
           Inr (if n < 2 * s then \<lparr>sig_r = r, sig_s = n - s, sig_v = v0 XOR 1\<rparr>
                else \<lparr>sig_r = r, sig_s = s, sig_v = v0\<rparr>) \<and>
         (v0 XOR 1) AND 1 \<noteq> v0 AND 1 \<and> drop_bit 1 (v0 XOR 1) = drop_bit 1 v0 \<and>
         (fn_033399 r s R n = Inr S \<longrightarrow>
            2 * sig_s S \<le> n \<and> low_s n (sig_s S, sig_v S) = (sig_s S, sig_v S)) \<and>
         (fn_6dcb8a T ef fn_30ecde rnd fuel d M = Some (Inr S') \<longrightarrow>
            2 * sig_s S' \<le> T_n T \<and> low_s (T_n T) (sig_s S', sig_v S') = (sig_s S', sig_v S'))"
proof -
  have h: "(drop_bit 1 n < s) = (n < 2 * s)"
  proof -
    have "(n div 2 < s) = (n < 2 * s)" by linarith
    then show ?thesis by (simp add: drop_bit_eq_div)
  qed
  have 1: "fn_033399 r s R n =
           Inr (if n < 2 * s then \<lparr>sig_r = r, sig_s = n - s, sig_v = v0 XOR 1\<rparr>
                else \<lparr>sig_r = r, sig_s = s, sig_v = v0\<rparr>)"
    using assms h by (simp add: fn_033399_def low_s_def Let_def)
  have 2: "(v0 XOR 1) AND 1 \<noteq> v0 AND 1" by (rule xor_one_flips)
  have 3: "drop_bit 1 (v0 XOR 1) = drop_bit 1 v0" by simp
  have 4: "2 * sig_s S \<le> n \<and> low_s n (sig_s S, sig_v S) = (sig_s S, sig_v S)"
    if "fn_033399 r s R n = Inr S"
    using that by (rule fn_033399_low)
  have 5: "2 * sig_s S' \<le> T_n T \<and> low_s (T_n T) (sig_s S', sig_v S') = (sig_s S', sig_v S')"
    if "fn_6dcb8a T ef fn_30ecde rnd fuel d M = Some (Inr S')"
  proof -
    from fn_6dcb8a_Some [OF that] obtain k r s
      where "fn_033399 r s (kG T k) (T_n T) = Inr S'" by (auto simp: fn_30ecde_def)
    then show ?thesis by (rule fn_033399_low)
  qed
  from 1 2 3 4 5 show ?thesis by simp
qed

lemma toy_sign_flip_run:
  "fn_6dcb8a toy (\<lambda>M. 3) fn_30ecde (\<lambda>t i. 4) 1 5 [] = Some (Inr \<lparr>sig_r = 10, sig_s = 3, sig_v = 1\<rparr>)"
  by code_simp

lemma toy_discriminant_run: "(0::int) = (2 AND 1) OR push_bit 1 (10 sdiv 13)"
  by code_simp

theorem low_s_normalization_witness:
  "P_x (affine 10 2) = Some 10 \<and> P_y (affine 10 2) = Some 2 \<and> (13::int) \<noteq> 0 \<and>
   (0::int) = (2 AND 1) OR push_bit 1 (10 sdiv 13) \<and>
   fn_033399 10 10 (affine 10 2) 13 = Inr \<lparr>sig_r = 10, sig_s = 3, sig_v = 1\<rparr> \<and>
   fn_6dcb8a toy (\<lambda>M. 3) fn_30ecde (\<lambda>t i. 4) 1 5 [] = Some (Inr \<lparr>sig_r = 10, sig_s = 3, sig_v = 1\<rparr>) \<and>
   2 * sig_s \<lparr>sig_r = 10, sig_s = 3, sig_v = 1\<rparr> \<le> T_n toy \<and>
   low_s (T_n toy) (3, 1) = (3, 1)"
  using low_s_normalization [of "affine 10 2" 10 2 13 0 10 10 "\<lparr>sig_r = 10, sig_s = 3, sig_v = 1\<rparr>"
      toy "\<lambda>M. 3" "\<lambda>t i. 4" 1 5 "[]" "\<lparr>sig_r = 10, sig_s = 3, sig_v = 1\<rparr>"]
    toy_sign_flip_run toy_discriminant_run
  by (simp add: toy_sel affine_def)

text \<open>
  Claim C6 says that every nonce the rejection-sampling loop accepts satisfies
  \<open>1 \<le> k < n\<close>. The loop of the generic form does (\<open>draw_nonce_in_range\<close>). The loop
  of the class form rejects a draw only when \<^verbatim>\<open>compare(K, N) == 1\<close>, so it accepts the
  draw that encodes \<open>n\<close> itself: with \<open>n = 13\<close> and one byte, the draw \<open>[13]\<close>.
\<close>

theorem Ecdsa_nonce_accepts_n:
  "Ecdsa_draw_nonce (\<lambda>t i. 13) 1 (bigintToUint8Array_LE (T_n toy) 1) (replicate 1 0) 0 1 = Some ([13], 1) \<and>
   uint8ArrayToBigint_LE [13] (Some 1) = T_n toy"
  by code_simp

section \<open>Claims about the verifier\<close>

text \<open>
  Both verifiers return \<open>false\<close> at once when \<open>r\<close> or \<open>s\<close> is \<open>0\<close> or at least
  \<open>n\<close>.
\<close>

lemma verify_rejects:
  "sig_r S = 0 \<or> sig_r S \<ge> T_n T \<or> sig_s S = 0 \<or> sig_s S \<ge> T_n T \<Longrightarrow>
   verify T a7 Q S M = Inr False"
  by (auto simp: verify_def)

lemma Ecdsa_verify_rejects:
  "sig_r S = 0 \<or> sig_r S \<ge> T_n T \<or> sig_s S = 0 \<or> sig_s S \<ge> T_n T \<Longrightarrow>
   Ecdsa_verify Q T S H hashlen = Inr False"
  by (auto simp: Ecdsa_verify_def)






text \<open>
  Claim C9. For a signature with \<open>0 < r < n\<close> and \<open>0 < s < n\<close>, each verifier computes
  \<open>R' = (e\<cdot>G + r\<cdot>Q) / s\<close> with \<^verbatim>\<open>T.divide\<close>, returns \<open>false\<close> when \<open>R'\<close> is the
  identity, and otherwise returns whether the remainder of the x-coordinate of \<open>R'\<close>
  modulo \<open>n\<close> is \<open>r\<close> (a point that is not the identity and has no x-coordinate would
  make \<^verbatim>\<open>R.x! % n\<close> throw). The remainder \<^verbatim>\<open>%\<close> is \<open>mod\<close> on a coordinate that is
  not negative.
\<close>

theorem verify_in_range:
  assumes "0 < sig_r S" and "sig_r S < T_n T" and "0 < sig_s S" and "sig_s S < T_n T"
  shows "verify T a7 Q S M =
          (let R' = T_divide T (sig_s S) (E_add T (E_multiply T (a7 M) (T_G T)) (E_multiply T (sig_r S) Q))
           in if isIdentity R' then Inr False
              else case P_x R' of None \<Rightarrow> Inl TypeError | Some X \<Rightarrow> Inr (X smod T_n T = sig_r S)) \<and>
         Ecdsa_verify Q T S H hashlen =
          (let R' = T_divide T (sig_s S)
                 (E_add T (E_multiply T (uint8ArrayToBigint_LE H (Some hashlen)) (T_G T)) (E_multiply T (sig_r S) Q))
           in if isIdentity R' then Inr False
              else case P_x R' of None \<Rightarrow> Inl TypeError | Some X \<Rightarrow> Inr (X smod T_n T = sig_r S)) \<and>
         (\<forall>X. 0 \<le> X \<longrightarrow> X smod T_n T = X mod T_n T)"
proof -
  have n: "0 < T_n T" using assms(1,2) by simp
  then have "\<forall>X. 0 \<le> X \<longrightarrow> X smod T_n T = X mod T_n T" by (simp add: smod_nonneg)
  with assms n show ?thesis
    by (simp add: verify_def Ecdsa_verify_def Let_def split: option.splits)
qed

lemma toy_verify_point_run:
  "T_divide toy 12 (E_add toy (E_multiply toy 9 (T_G toy)) (E_multiply toy 8 (affine 3 6))) = affine 8 3"
  by code_simp

theorem verify_in_range_witness:
  "(0::int) < sig_r \<lparr>sig_r = 8, sig_s = 12\<rparr> \<and> sig_r \<lparr>sig_r = 8, sig_s = 12\<rparr> < T_n toy \<and>
   (0::int) < sig_s \<lparr>sig_r = 8, sig_s = 12\<rparr> \<and> sig_s \<lparr>sig_r = 8, sig_s = 12\<rparr> < T_n toy \<and>
   T_divide toy 12 (E_add toy (E_multiply toy 9 (T_G toy)) (E_multiply toy 8 (affine 3 6))) = affine 8 3 \<and>
   verify toy (\<lambda>M. 9) (affine 3 6) \<lparr>sig_r = 8, sig_s = 12\<rparr> [] = Inr True \<and>
   (8::int) smod T_n toy = 8 mod T_n toy"
  using verify_in_range [of "\<lparr>sig_r = 8, sig_s = 12\<rparr>" toy "\<lambda>M. 9" "affine 3 6" "[]" "[9]" 1]
    toy_verify_point_run
  by (simp add: toy_sel affine_def)

section \<open>Claims about the recoverers\<close>

text \<open>
  Claim C3. For a domain that meets the contract and whose base-field order is 3 modulo 4
  (what \<^verbatim>\<open>T.E.solve\<close> needs), a secret \<open>d\<close> in \<open>(0, n)\<close> and a digest integer that is
  not negative: the fast recoverer, applied to a recoverable signature the signer returned
  and to the same message, returns the public point \<open>d\<cdot>G\<close> itself.
\<close>

theorem fast_recover_exact:
  assumes "domain_contract T" and "EF_p T mod 4 = 3" and "0 < d" and "d < T_n T" and "0 \<le> ef M"
  shows "fn_6dcb8a T ef fn_30ecde rnd fuel d M = Some (Inr S) \<longrightarrow>
         fn_560c92 T ef S M = Inr (E_multiply T d (T_G T))"
proof
  assume "fn_6dcb8a T ef fn_30ecde rnd fuel d M = Some (Inr S)"
  from fn_6dcb8a_Some [OF this] obtain k r s
    where se: "signing_equation T d (ef M) k r s"
      and S: "fn_033399 r s (kG T k) (T_n T) = Inr S"
    by (auto simp: fn_30ecde_def)
  have d: "0 \<le> d" using assms(3) by simp
  have "fn_560c92 T ef S M = Inr (kG T d)"
    using assms(1,2) d assms(5) se S by (rule fast_recover_signed)
  then show "fn_560c92 T ef S M = Inr (E_multiply T d (T_G T))" by (simp add: kG_def)
qed

theorem fast_recover_exact_witness:
  "domain_contract toy \<and> EF_p toy mod 4 = 3 \<and> (0::int) < 5 \<and> 5 < T_n toy \<and>
   (0::int) \<le> (\<lambda>M. 9) ([] :: Uint8Array) \<and>
   fn_6dcb8a toy (\<lambda>M. 9) fn_30ecde (\<lambda>t i. 3) 1 5 [] = Some (Inr \<lparr>sig_r = 8, sig_s = 1, sig_v = 0\<rparr>) \<and>
   fn_560c92 toy (\<lambda>M. 9) \<lparr>sig_r = 8, sig_s = 1, sig_v = 0\<rparr> [] = Inr (E_multiply toy 5 (T_G toy)) \<and>
   E_multiply toy 5 (T_G toy) = affine 3 6"
proof -
  have "E_multiply toy 5 (T_G toy) = affine 3 6" by code_simp
  then show ?thesis
    using fast_recover_exact [OF toy_contract, of 5 "\<lambda>M. 9" "[]" "(\<lambda>t i. 3)" 1 "\<lparr>sig_r = 8, sig_s = 1, sig_v = 0\<rparr>"]
      toy_contract toy_sign_recoverable_run
    by (simp add: toy_sel)
qed

text \<open>
  Claim C2, with the conditions under which it holds. For a domain that meets the contract,
  whose base-field order \<open>p\<close> is 3 modulo 4 and at most \<open>(h + 1) \<cdot> n\<close>, a secret in
  \<open>(0, n)\<close> and a digest integer that is not negative: the public point \<open>d\<cdot>G\<close> is
  among the points the generic recoverer yields for a base-form signature the signer
  returned and the same message. The loop tries the x-coordinates \<open>r + j\<cdot>n\<close> for
  \<open>j \<le> h\<close> only, and the bound on \<open>p\<close> is what makes the x-coordinate of the
  signer's point one of them. The class form hands the digest integer to
  \<^verbatim>\<open>T.F.inverse\<close> as it is, where the generic form reduces it modulo \<open>n\<close> first; for
  the class form the statement is for a digest integer that \<^verbatim>\<open>T.F.inverse\<close> negates,
  as the contract says it does every one below \<open>n\<close>.
\<close>

theorem generic_recover_complete:
  assumes "domain_contract T" and "EF_p T mod 4 = 3" and "EF_p T \<le> (T_h T + 1) * T_n T"
    and "0 < d" and "d < T_n T" and "0 \<le> ef M"
  shows "(fn_6dcb8a T ef fn_f34c7e rnd fuel d M = Some (Inr S) \<longrightarrow>
           (\<exists>Qs. fn_2bfce0 T ef S M = Inr Qs \<and> E_multiply T d (T_G T) \<in> set Qs)) \<and>
         (Ecdsa_sign T H d hashlen rnd fuel = Some S' \<and>
          inverse_negates T (uint8ArrayToBigint_LE H (Some hashlen)) \<longrightarrow>
           E_multiply T d (T_G T) \<in> set (Ecdsa_recover_p3mod4 T S' H hashlen))"
proof (rule conjI; rule impI)
  have n: "1 < T_n T" using assms(1) by (rule contract_n)
  then have n0: "T_n T \<noteq> 0" by simp
  have d: "0 \<le> d" using assms(4) by simp
  from reduced_inverse [OF n assms(6) contract_reduced_inverse [OF assms(1,6)]]
  have hi: "0 \<le> F_inverse T (ef M smod T_n T)" "(ef M + F_inverse T (ef M smod T_n T)) mod T_n T = 0"
    by simp_all
  assume "fn_6dcb8a T ef fn_f34c7e rnd fuel d M = Some (Inr S)"
  from fn_6dcb8a_Some [OF this] obtain k r s
    where se: "signing_equation T d (ef M) k r s" and S: "S = \<lparr>sig_r = r, sig_s = s\<rparr>"
    by (auto simp: fn_f34c7e_def fn_f6555a_def)
  have "kG T d \<in> set (recover_loop T r s (E_multiply T (F_inverse T (ef M smod T_n T)) (T_G T))
      (F_reciprocal T r) (new_FinitePoint\<lparr>isIdentity := False\<rparr>) 0 0)"
    using assms(1,2,3) d assms(6) se hi by (rule recover_signed)
  then show "\<exists>Qs. fn_2bfce0 T ef S M = Inr Qs \<and> E_multiply T d (T_G T) \<in> set Qs"
    unfolding fn_2bfce0_eq [OF n0] by (simp add: S kG_def)
next
  have d: "0 \<le> d" using assms(4) by simp
  define e where "e = uint8ArrayToBigint_LE H (Some hashlen)"
  have e0: "0 \<le> e" by (simp add: e_def uint8ArrayToBigint_LE_nonneg)
  assume A: "Ecdsa_sign T H d hashlen rnd fuel = Some S' \<and>
    inverse_negates T (uint8ArrayToBigint_LE H (Some hashlen))"
  then have hi: "0 \<le> F_inverse T e" "(e + F_inverse T e) mod T_n T = 0"
    by (simp_all add: e_def inverse_negates_def)
  from A Ecdsa_sign_Some [of T H d hashlen rnd fuel S'] obtain k r s
    where se: "signing_equation T d e k r s" and S: "S' = \<lparr>sig_r = r, sig_s = s\<rparr>"
    unfolding e_def by blast
  have "kG T d \<in> set (recover_loop T r s (E_multiply T (F_inverse T e) (T_G T))
      (F_reciprocal T r) (new_FinitePoint\<lparr>isIdentity := False\<rparr>) 0 0)"
    using assms(1,2,3) d e0 se hi by (rule recover_signed)
  then show "E_multiply T d (T_G T) \<in> set (Ecdsa_recover_p3mod4 T S' H hashlen)"
    unfolding Ecdsa_recover_p3mod4_eq e_def [symmetric] by (simp add: S kG_def)
qed

lemma toy_Ecdsa_sign_22_run: "Ecdsa_sign toy [22] 5 1 (\<lambda>t i. 3) 1 = Some \<lparr>sig_r = 8, sig_s = 12\<rparr>"
  by code_simp

lemma toy_negates_22: "inverse_negates toy (uint8ArrayToBigint_LE [22] (Some 1))"
  by code_simp

theorem generic_recover_complete_witness:
  "domain_contract toy \<and> EF_p toy mod 4 = 3 \<and> EF_p toy \<le> (T_h toy + 1) * T_n toy \<and>
   (0::int) < 5 \<and> 5 < T_n toy \<and> (0::int) \<le> (\<lambda>M. 9) ([] :: Uint8Array) \<and>
   fn_6dcb8a toy (\<lambda>M. 9) fn_f34c7e (\<lambda>t i. 3) 1 5 [] = Some (Inr \<lparr>sig_r = 8, sig_s = 12\<rparr>) \<and>
   (\<exists>Qs. fn_2bfce0 toy (\<lambda>M. 9) \<lparr>sig_r = 8, sig_s = 12\<rparr> [] = Inr Qs \<and> E_multiply toy 5 (T_G toy) \<in> set Qs) \<and>
   Ecdsa_sign toy [22] 5 1 (\<lambda>t i. 3) 1 = Some \<lparr>sig_r = 8, sig_s = 12\<rparr> \<and>
   inverse_negates toy (uint8ArrayToBigint_LE [22] (Some 1)) \<and>
   E_multiply toy 5 (T_G toy) \<in> set (Ecdsa_recover_p3mod4 toy \<lparr>sig_r = 8, sig_s = 12\<rparr> [22] 1)"
  using generic_recover_complete [OF toy_contract, of 5 "\<lambda>M. 9" "[]" "(\<lambda>t i. 3)" 1
      "\<lparr>sig_r = 8, sig_s = 12\<rparr>" "[22]" 1 "\<lparr>sig_r = 8, sig_s = 12\<rparr>"]
    toy_contract toy_sign_run toy_Ecdsa_sign_22_run toy_negates_22
  by (simp add: toy_sel)

lemma curve31_sign_run:
  "fn_6dcb8a curve31 (\<lambda>M. 4) fn_f34c7e (\<lambda>t i. 3) 1 2 [] = Some (Inr \<lparr>sig_r = 2, sig_s = 5\<rparr>) \<and>
   Ecdsa_sign curve31 [4] 2 1 (\<lambda>t i. 3) 1 = Some \<lparr>sig_r = 2, sig_s = 5\<rparr>"
  by code_simp

lemma curve31_verify_run:
  "E_multiply curve31 2 (T_G curve31) = affine 26 7 \<and>
   E_multiply curve31 3 (T_G curve31) = affine 30 24 \<and>
   verify curve31 (\<lambda>M. 4) (affine 26 7) \<lparr>sig_r = 2, sig_s = 5\<rparr> [] = Inr True \<and>
   Ecdsa_verify (affine 26 7) curve31 \<lparr>sig_r = 2, sig_s = 5\<rparr> [4] 1 = Inr True"
  by code_simp

lemma curve31_recover_run:
  "fn_2bfce0 curve31 (\<lambda>M. 4) \<lparr>sig_r = 2, sig_s = 5\<rparr> [] = Inr [] \<and>
   Ecdsa_recover_p3mod4 curve31 \<lparr>sig_r = 2, sig_s = 5\<rparr> [4] 1 = []"
  by code_simp

text \<open>
  Claim C2 as the spec states it, with the residue of the base-field order as its only
  condition, fails in the domain with a cofactor. With the secret 2, the digest integer 4
  and the nonce 3, both signers return \<open>(2, 5)\<close>: the point \<open>3\<cdot>G\<close> is \<open>(30, 24)\<close>,
  and \<open>r\<close> is \<open>30 mod 7\<close>. The signature verifies against the public point
  \<open>2\<cdot>G = (26, 7)\<close>. The recoverers try the x-coordinates 2, 9, 16 and 23, never 30,
  and yield nothing.
\<close>

theorem generic_recover_misses:
  "domain_contract curve31 \<and> EF_p curve31 mod 4 = 3 \<and>
   (T_h curve31 + 1) * T_n curve31 < EF_p curve31 \<and>
   (0::int) < 2 \<and> 2 < T_n curve31 \<and>
   fn_6dcb8a curve31 (\<lambda>M. 4) fn_f34c7e (\<lambda>t i. 3) 1 2 [] = Some (Inr \<lparr>sig_r = 2, sig_s = 5\<rparr>) \<and>
   E_multiply curve31 2 (T_G curve31) = affine 26 7 \<and>
   E_multiply curve31 3 (T_G curve31) = affine 30 24 \<and>
   verify curve31 (\<lambda>M. 4) (affine 26 7) \<lparr>sig_r = 2, sig_s = 5\<rparr> [] = Inr True \<and>
   fn_2bfce0 curve31 (\<lambda>M. 4) \<lparr>sig_r = 2, sig_s = 5\<rparr> [] = Inr [] \<and>
   Ecdsa_sign curve31 [4] 2 1 (\<lambda>t i. 3) 1 = Some \<lparr>sig_r = 2, sig_s = 5\<rparr> \<and>
   Ecdsa_verify (affine 26 7) curve31 \<lparr>sig_r = 2, sig_s = 5\<rparr> [4] 1 = Inr True \<and>
   Ecdsa_recover_p3mod4 curve31 \<lparr>sig_r = 2, sig_s = 5\<rparr> [4] 1 = []"
  using curve31_contract curve31_sign_run curve31_verify_run curve31_recover_run
  by (simp add: curve31_sel)





text \<open>
  The hypothesis on \<^verbatim>\<open>T.F.inverse\<close> is needed. In the small domain with the reciprocal
  put in the place of \<^verbatim>\<open>T.F.inverse\<close>, the generic recoverer yields other points than
  the candidates of the spec, and the public point \<open>5\<cdot>G = (3, 6)\<close> of the signature
  \<open>(8, 12)\<close> is not among them.
\<close>

lemma recover_with_reciprocal_run:
  "fn_2bfce0 (toy\<lparr>F_inverse := toy_reciprocal\<rparr>) (\<lambda>M. 9) \<lparr>sig_r = 8, sig_s = 12\<rparr> [] =
     Inr [\<lparr>P_x = None, P_y = None, isIdentity = True\<rparr>, affine 10 2, affine 10 9, affine 3 5] \<and>
   spec_candidates (toy\<lparr>F_inverse := toy_reciprocal\<rparr>) 8 12 9 (new_FinitePoint\<lparr>isIdentity := False\<rparr>) 0 =
     [affine 3 6, affine 10 9, affine 2 7, \<lparr>P_x = None, P_y = None, isIdentity = True\<rparr>]"
  by code_simp

end
